theory Spec2Isabelle
  imports Complex_Main
begin

section \<open>Action schemas (utils/schemas)\<close>

text \<open>
  The schema generator builds zod schemas. A zod schema is modelled by the part of its
  structure that the repository uses: strings with optional minimum and maximum length,
  numbers, arrays with an optional maximum number of items, objects (an ordered list of
  keys), optional wrappers and string enumerations. The free-text descriptions attached
  with \<open>.describe\<close> are kept as a tag naming the description and carrying the values
  interpolated into it; their wording is not modelled.
\<close>

definition MAX_URLS_PER_STEP :: nat where
  "MAX_URLS_PER_STEP = 5"

definition MAX_QUERIES_PER_STEP :: nat where
  "MAX_QUERIES_PER_STEP = 5"

definition MAX_REFLECT_PER_STEP :: nat where
  "MAX_REFLECT_PER_STEP = 2"

datatype description =
    SearchQueryDescr
  | SearchRequestsDescr nat
  | CodingIssueDescr
  | AnswerDescr string
  | ReflectQuestionDescr
  | ReflectDescr "string option" nat
  | URLTargetsDescr nat
  | ThinkDescr string string
  | ActionDescr

datatype zod =
    ZodString "nat option" "nat option" "description option"
  | ZodNumber "description option"
  | ZodArray zod "nat option" "description option"
  | ZodObject "(string \<times> zod) list"
  | ZodOptional zod
  | ZodEnum "string list" "description option"

text \<open>The fields of the class \<open>Schemas\<close>.\<close>

record schemas =
  languageStyle :: string
  languageCode :: string
  searchLanguageCode :: "string option"

text \<open>
  \<open>getAgentSchema\<close>: the action sub-schemas are inserted into \<open>actionSchemas\<close> in the
  order search, coding, answer, reflect, visit, each under its permission flag; the
  result is an object with the keys \<open>think\<close>, \<open>action\<close> (an enumeration of the keys of
  \<open>actionSchemas\<close>) and the sub-schemas themselves.
\<close>

definition searchSchema :: zod where
  "searchSchema = ZodOptional (ZodObject
     [(''searchRequests'',
       ZodArray (ZodString (Some 1) (Some 30) (Some SearchQueryDescr))
         (Some MAX_QUERIES_PER_STEP) (Some (SearchRequestsDescr MAX_QUERIES_PER_STEP)))])"

definition codingSchema :: zod where
  "codingSchema = ZodOptional (ZodObject
     [(''codingIssue'', ZodString None (Some 500) (Some CodingIssueDescr))])"

definition answerSchema :: "schemas \<Rightarrow> zod" where
  "answerSchema sg = ZodOptional (ZodObject
     [(''answer'', ZodString None None (Some (AnswerDescr (languageStyle sg))))])"

definition reflectSchema :: "string option \<Rightarrow> zod" where
  "reflectSchema currentQuestion = ZodOptional (ZodObject
     [(''questionsToAnswer'',
       ZodArray (ZodString None None (Some ReflectQuestionDescr))
         (Some MAX_REFLECT_PER_STEP)
         (Some (ReflectDescr currentQuestion MAX_REFLECT_PER_STEP)))])"

definition visitSchema :: zod where
  "visitSchema = ZodOptional (ZodObject
     [(''URLTargets'',
       ZodArray (ZodNumber None) (Some MAX_URLS_PER_STEP)
         (Some (URLTargetsDescr MAX_URLS_PER_STEP)))])"

definition actionSchemas ::
  "schemas \<Rightarrow> bool \<Rightarrow> bool \<Rightarrow> bool \<Rightarrow> bool \<Rightarrow> bool \<Rightarrow> string option \<Rightarrow> (string \<times> zod) list" where
  "actionSchemas sg allowReflect allowRead allowAnswer allowSearch allowCoding currentQuestion =
     (if allowSearch then [(''search'', searchSchema)] else []) @
     (if allowCoding then [(''coding'', codingSchema)] else []) @
     (if allowAnswer then [(''answer'', answerSchema sg)] else []) @
     (if allowReflect then [(''reflect'', reflectSchema currentQuestion)] else []) @
     (if allowRead then [(''visit'', visitSchema)] else [])"

definition getAgentSchema ::
  "schemas \<Rightarrow> bool \<Rightarrow> bool \<Rightarrow> bool \<Rightarrow> bool \<Rightarrow> bool \<Rightarrow> string option \<Rightarrow> zod" where
  "getAgentSchema sg allowReflect allowRead allowAnswer allowSearch allowCoding currentQuestion =
     (let acts = actionSchemas sg allowReflect allowRead allowAnswer allowSearch allowCoding
                   currentQuestion
      in ZodObject
           ([(''think'', ZodString None (Some 500)
                (Some (ThinkDescr (languageCode sg) (languageStyle sg)))),
             (''action'', ZodEnum (map fst acts) (Some ActionDescr))] @ acts))"

text \<open>Reading a generated schema: the shape of an object, and the values of its action
  enumeration.\<close>

fun shapeOf :: "zod \<Rightarrow> (string \<times> zod) list" where
  "shapeOf (ZodObject shape) = shape"
| "shapeOf _ = []"

fun enumValues :: "zod \<Rightarrow> string list" where
  "enumValues (ZodEnum vs _) = vs"
| "enumValues _ = []"

definition actionEnum :: "zod \<Rightarrow> string list" where
  "actionEnum sch = (case map_of (shapeOf sch) ''action'' of
                       Some e \<Rightarrow> enumValues e | None \<Rightarrow> [])"

definition subSchema :: "zod \<Rightarrow> string \<Rightarrow> zod option" where
  "subSchema sch k = map_of (shapeOf sch) k"

text \<open>
  What a schema accepts. JSON values as the model layer produces them; the validation
  rules are those of the zod constructors above: a string within its length bounds, a
  number, an array of conforming items within its maximum length, an object whose keys
  conform (a missing key only where the key is optional), a member of an enumeration.
\<close>

datatype json =
    JString string
  | JNumber int
  | JBool bool
  | JNull
  | JArray "json list"
  | JObject "(string \<times> json) list"

definition withinMin :: "nat option \<Rightarrow> nat \<Rightarrow> bool" where
  "withinMin b n = (case b of None \<Rightarrow> True | Some m \<Rightarrow> m \<le> n)"

definition withinMax :: "nat option \<Rightarrow> nat \<Rightarrow> bool" where
  "withinMax b n = (case b of None \<Rightarrow> True | Some m \<Rightarrow> n \<le> m)"

fun isOptional :: "zod \<Rightarrow> bool" where
  "isOptional (ZodOptional _) = True"
| "isOptional _ = False"

fun conforms :: "zod \<Rightarrow> json \<Rightarrow> bool" where
  "conforms (ZodString mn mx d) v =
     (case v of JString s \<Rightarrow> withinMin mn (length s) \<and> withinMax mx (length s) | _ \<Rightarrow> False)"
| "conforms (ZodNumber d) v = (case v of JNumber n \<Rightarrow> True | _ \<Rightarrow> False)"
| "conforms (ZodArray el mx d) v =
     (case v of JArray xs \<Rightarrow> list_all (conforms el) xs \<and> withinMax mx (length xs)
      | _ \<Rightarrow> False)"
| "conforms (ZodObject shape) v =
     (case v of
        JObject kvs \<Rightarrow>
          list_all (\<lambda>ks. case map_of kvs (fst ks) of
                            None \<Rightarrow> isOptional (snd ks)
                          | Some x \<Rightarrow> conforms (snd ks) x) shape
      | _ \<Rightarrow> False)"
| "conforms (ZodOptional s) v = conforms s v"
| "conforms (ZodEnum vs d) v = (case v of JString s \<Rightarrow> s \<in> set vs | _ \<Rightarrow> False)"


text \<open>Reading a key of a JSON object; the permitted action kinds of a set of flags (the
  flag \<open>allowRead\<close> governs the action \<open>visit\<close>).\<close>

definition jfield :: "json \<Rightarrow> string \<Rightarrow> json option" where
  "jfield v k = (case v of JObject kvs \<Rightarrow> map_of kvs k | _ \<Rightarrow> None)"

definition permittedKinds :: "bool \<Rightarrow> bool \<Rightarrow> bool \<Rightarrow> bool \<Rightarrow> bool \<Rightarrow> string set" where
  "permittedKinds allowReflect allowRead allowAnswer allowSearch allowCoding =
     (if allowSearch then {''search''} else {}) \<union>
     (if allowRead then {''visit''} else {}) \<union>
     (if allowAnswer then {''answer''} else {}) \<union>
     (if allowReflect then {''reflect''} else {}) \<union>
     (if allowCoding then {''coding''} else {})"

subsection \<open>Properties of the agent schema\<close>

lemma actionEnum_getAgentSchema:
  "actionEnum (getAgentSchema sg rf rd an se co cq) = map fst (actionSchemas sg rf rd an se co cq)"
  by (simp add: actionEnum_def getAgentSchema_def Let_def)

lemma set_actionEnum:
  "set (actionEnum (getAgentSchema sg rf rd an se co cq)) = permittedKinds rf rd an se co"
  by (auto simp add: actionEnum_getAgentSchema actionSchemas_def permittedKinds_def)

lemma distinct_actionEnum:
  "distinct (actionEnum (getAgentSchema sg rf rd an se co cq))"
  by (simp add: actionEnum_getAgentSchema actionSchemas_def)

lemma keys_getAgentSchema:
  "map fst (shapeOf (getAgentSchema sg rf rd an se co cq)) =
     ''think'' # ''action'' # actionEnum (getAgentSchema sg rf rd an se co cq)"
  by (simp add: actionEnum_getAgentSchema) (simp add: getAgentSchema_def Let_def)

lemma subSchema_getAgentSchema:
  "subSchema (getAgentSchema sg rf rd an se co cq) k =
     (if k = ''think'' then Some (ZodString None (Some 500) (Some (ThinkDescr (languageCode sg) (languageStyle sg))))
      else if k = ''action'' then Some (ZodEnum (actionEnum (getAgentSchema sg rf rd an se co cq)) (Some ActionDescr))
      else if k = ''search'' \<and> se then Some searchSchema
      else if k = ''coding'' \<and> co then Some codingSchema
      else if k = ''answer'' \<and> an then Some (answerSchema sg)
      else if k = ''reflect'' \<and> rf then Some (reflectSchema cq)
      else if k = ''visit'' \<and> rd then Some visitSchema
      else None)"
  by (simp add: actionEnum_getAgentSchema) (simp add: subSchema_def getAgentSchema_def Let_def actionSchemas_def)


lemma conforms_object_field:
  "conforms (ZodObject shape) v \<Longrightarrow> (k, s) \<in> set shape \<Longrightarrow> jfield v k = Some a \<Longrightarrow> conforms s a"
  by (cases v) (auto simp add: jfield_def list_all_iff)

lemma conforms_object_required:
  "conforms (ZodObject shape) v \<Longrightarrow> (k, s) \<in> set shape \<Longrightarrow> \<not> isOptional s \<Longrightarrow> \<exists>a. jfield v k = Some a \<and> conforms s a"
  by (cases v) (auto simp add: jfield_def list_all_iff split: option.splits)

lemma conforms_searchSchema:
  "conforms searchSchema a \<Longrightarrow>
     \<exists>qs. jfield a ''searchRequests'' = Some (JArray qs) \<and> length qs \<le> 5"
  by (cases a) (auto simp add: searchSchema_def jfield_def withinMax_def MAX_QUERIES_PER_STEP_def
      split: option.splits json.splits)

lemma conforms_visitSchema:
  "conforms visitSchema a \<Longrightarrow>
     \<exists>ts. jfield a ''URLTargets'' = Some (JArray ts) \<and> length ts \<le> 5"
  by (cases a) (auto simp add: visitSchema_def jfield_def withinMax_def MAX_URLS_PER_STEP_def
      split: option.splits json.splits)

lemma conforms_reflectSchema:
  "conforms (reflectSchema cq) a \<Longrightarrow>
     \<exists>qs. jfield a ''questionsToAnswer'' = Some (JArray qs) \<and> length qs \<le> 2"
  by (cases a) (auto simp add: reflectSchema_def jfield_def withinMax_def MAX_REFLECT_PER_STEP_def
      split: option.splits json.splits)

lemma conforms_codingSchema:
  "conforms codingSchema a \<Longrightarrow>
     \<exists>s. jfield a ''codingIssue'' = Some (JString s) \<and> length s \<le> 500"
  by (cases a) (auto simp add: codingSchema_def jfield_def withinMax_def
      split: option.splits json.splits)

lemma conforms_sub:
  assumes "conforms (getAgentSchema sg rf rd an se co cq) v" and "jfield v k = Some a"
    and "subSchema (getAgentSchema sg rf rd an se co cq) k = Some s"
  shows "conforms s a"
proof -
  have "(k, s) \<in> set (shapeOf (getAgentSchema sg rf rd an se co cq))"
    using assms(3) by (simp add: subSchema_def map_of_SomeD)
  moreover have "getAgentSchema sg rf rd an se co cq =
      ZodObject (shapeOf (getAgentSchema sg rf rd an se co cq))"
    by (simp add: getAgentSchema_def Let_def)
  ultimately show ?thesis
    using assms(1,2) conforms_object_field by metis
qed

text \<open>
  C9. For every combination of the five permission flags, the action enumeration of the
  schema built by \<open>getAgentSchema\<close> holds exactly the permitted action kinds (each
  once), the keys of the schema are \<open>think\<close>, \<open>action\<close> and one optional sub-schema per
  permitted kind, and a value that conforms to the schema respects the limits of every
  included sub-schema: at most 5 search requests, at most 5 URL targets, at most 2
  reflection questions and a coding issue of at most 500 characters.
\<close>

theorem getAgentSchema_actions_and_limits:
  "set (actionEnum (getAgentSchema sg rf rd an se co cq)) = permittedKinds rf rd an se co \<and>
   distinct (actionEnum (getAgentSchema sg rf rd an se co cq)) \<and>
   map fst (shapeOf (getAgentSchema sg rf rd an se co cq)) =
     ''think'' # ''action'' # actionEnum (getAgentSchema sg rf rd an se co cq) \<and>
   (\<forall>k \<in> set (actionEnum (getAgentSchema sg rf rd an se co cq)).
      \<exists>s. subSchema (getAgentSchema sg rf rd an se co cq) k = Some (ZodOptional s)) \<and>
   (\<forall>v a. se \<and> conforms (getAgentSchema sg rf rd an se co cq) v \<and> jfield v ''search'' = Some a
      \<longrightarrow> (\<exists>qs. jfield a ''searchRequests'' = Some (JArray qs) \<and> length qs \<le> 5)) \<and>
   (\<forall>v a. rd \<and> conforms (getAgentSchema sg rf rd an se co cq) v \<and> jfield v ''visit'' = Some a
      \<longrightarrow> (\<exists>ts. jfield a ''URLTargets'' = Some (JArray ts) \<and> length ts \<le> 5)) \<and>
   (\<forall>v a. rf \<and> conforms (getAgentSchema sg rf rd an se co cq) v \<and> jfield v ''reflect'' = Some a
      \<longrightarrow> (\<exists>qs. jfield a ''questionsToAnswer'' = Some (JArray qs) \<and> length qs \<le> 2)) \<and>
   (\<forall>v a. co \<and> conforms (getAgentSchema sg rf rd an se co cq) v \<and> jfield v ''coding'' = Some a
      \<longrightarrow> (\<exists>s. jfield a ''codingIssue'' = Some (JString s) \<and> length s \<le> 500))"
proof -
  let ?G = "getAgentSchema sg rf rd an se co cq"
  have opt: "\<forall>k \<in> set (actionEnum ?G). \<exists>s. subSchema ?G k = Some (ZodOptional s)"
    unfolding set_actionEnum
    by (auto simp add: permittedKinds_def subSchema_getAgentSchema searchSchema_def
        codingSchema_def answerSchema_def reflectSchema_def visitSchema_def split: if_splits)
  have s1: "\<forall>v a. se \<and> conforms ?G v \<and> jfield v ''search'' = Some a
      \<longrightarrow> (\<exists>qs. jfield a ''searchRequests'' = Some (JArray qs) \<and> length qs \<le> 5)"
  proof (intro allI impI)
    fix v a
    assume h: "se \<and> conforms ?G v \<and> jfield v ''search'' = Some a"
    then have "subSchema ?G ''search'' = Some (searchSchema)"
      by (simp add: subSchema_getAgentSchema)
    with h have "conforms (searchSchema) a"
      using conforms_sub by blast
    then show "\<exists>qs. jfield a ''searchRequests'' = Some (JArray qs) \<and> length qs \<le> 5"
      by (rule conforms_searchSchema)
  qed
  have s2: "\<forall>v a. rd \<and> conforms ?G v \<and> jfield v ''visit'' = Some a
      \<longrightarrow> (\<exists>ts. jfield a ''URLTargets'' = Some (JArray ts) \<and> length ts \<le> 5)"
  proof (intro allI impI)
    fix v a
    assume h: "rd \<and> conforms ?G v \<and> jfield v ''visit'' = Some a"
    then have "subSchema ?G ''visit'' = Some (visitSchema)"
      by (simp add: subSchema_getAgentSchema)
    with h have "conforms (visitSchema) a"
      using conforms_sub by blast
    then show "\<exists>ts. jfield a ''URLTargets'' = Some (JArray ts) \<and> length ts \<le> 5"
      by (rule conforms_visitSchema)
  qed
  have s3: "\<forall>v a. rf \<and> conforms ?G v \<and> jfield v ''reflect'' = Some a
      \<longrightarrow> (\<exists>qs. jfield a ''questionsToAnswer'' = Some (JArray qs) \<and> length qs \<le> 2)"
  proof (intro allI impI)
    fix v a
    assume h: "rf \<and> conforms ?G v \<and> jfield v ''reflect'' = Some a"
    then have "subSchema ?G ''reflect'' = Some (reflectSchema cq)"
      by (simp add: subSchema_getAgentSchema)
    with h have "conforms (reflectSchema cq) a"
      using conforms_sub by blast
    then show "\<exists>qs. jfield a ''questionsToAnswer'' = Some (JArray qs) \<and> length qs \<le> 2"
      by (rule conforms_reflectSchema)
  qed
  have s4: "\<forall>v a. co \<and> conforms ?G v \<and> jfield v ''coding'' = Some a
      \<longrightarrow> (\<exists>s. jfield a ''codingIssue'' = Some (JString s) \<and> length s \<le> 500)"
  proof (intro allI impI)
    fix v a
    assume h: "co \<and> conforms ?G v \<and> jfield v ''coding'' = Some a"
    then have "subSchema ?G ''coding'' = Some (codingSchema)"
      by (simp add: subSchema_getAgentSchema)
    with h have "conforms (codingSchema) a"
      using conforms_sub by blast
    then show "\<exists>s. jfield a ''codingIssue'' = Some (JString s) \<and> length s \<le> 500"
      by (rule conforms_codingSchema)
  qed
  show ?thesis
    by (intro conjI set_actionEnum distinct_actionEnum keys_getAgentSchema opt s1 s2 s3 s4)
qed

text \<open>A concrete schema generator and a concrete model output, for the instances below.\<close>

definition sg0 :: schemas where
  "sg0 = \<lparr>languageStyle = ''formal English'', languageCode = ''en'', searchLanguageCode = None\<rparr>"

definition exampleOutput :: json where
  "exampleOutput = JObject
     [(''think'', JString ''look it up''),
      (''action'', JString ''search''),
      (''search'', JObject [(''searchRequests'', JArray [JString ''jina reader'', JString ''zod enum''])]),
      (''visit'', JObject [(''URLTargets'', JArray [JNumber 1, JNumber 2])]),
      (''reflect'', JObject [(''questionsToAnswer'', JArray [JString ''why'']) ]),
      (''coding'', JObject [(''codingIssue'', JString ''count the rows'')])]"

lemma exampleOutput_conforms:
  "conforms (getAgentSchema sg0 True True True True True None) exampleOutput"
  by (simp add: getAgentSchema_def actionSchemas_def Let_def exampleOutput_def searchSchema_def
      codingSchema_def answerSchema_def reflectSchema_def visitSchema_def withinMin_def
      withinMax_def MAX_QUERIES_PER_STEP_def MAX_URLS_PER_STEP_def MAX_REFLECT_PER_STEP_def)

theorem getAgentSchema_actions_and_limits_witness:
  "conforms (getAgentSchema sg0 True True True True True None) exampleOutput \<and>
   set (actionEnum (getAgentSchema sg0 True True True True True None)) =
     {''search'', ''visit'', ''answer'', ''reflect'', ''coding''} \<and>
   (\<exists>s. subSchema (getAgentSchema sg0 True True True True True None) ''search'' = Some (ZodOptional s)) \<and>
   (\<exists>qs. jfield (JObject [(''searchRequests'', JArray [JString ''jina reader'', JString ''zod enum''])])
            ''searchRequests'' = Some (JArray qs) \<and> length qs \<le> 5) \<and>
   (\<exists>ts. jfield (JObject [(''URLTargets'', JArray [JNumber 1, JNumber 2])])
            ''URLTargets'' = Some (JArray ts) \<and> length ts \<le> 5) \<and>
   (\<exists>qs. jfield (JObject [(''questionsToAnswer'', JArray [JString ''why''])])
            ''questionsToAnswer'' = Some (JArray qs) \<and> length qs \<le> 2) \<and>
   (\<exists>s. jfield (JObject [(''codingIssue'', JString ''count the rows'')])
            ''codingIssue'' = Some (JString s) \<and> length s \<le> 500)"
proof -
  note T = getAgentSchema_actions_and_limits [of sg0 True True True True True None]
  note C2 = conjunct2
  have c: "conforms (getAgentSchema sg0 True True True True True None) exampleOutput"
    by (rule exampleOutput_conforms)
  have e: "set (actionEnum (getAgentSchema sg0 True True True True True None)) =
     {''search'', ''visit'', ''answer'', ''reflect'', ''coding''}"
    using T [THEN conjunct1] by (simp add: permittedKinds_def insert_commute)
  have o: "\<exists>s. subSchema (getAgentSchema sg0 True True True True True None) ''search'' =
      Some (ZodOptional s)"
    using T [THEN C2, THEN C2, THEN C2, THEN conjunct1] e by simp
  have f1: "jfield exampleOutput ''search'' =
      Some (JObject [(''searchRequests'', JArray [JString ''jina reader'', JString ''zod enum''])])"
    and f2: "jfield exampleOutput ''visit'' = Some (JObject [(''URLTargets'', JArray [JNumber 1, JNumber 2])])"
    and f3: "jfield exampleOutput ''reflect'' = Some (JObject [(''questionsToAnswer'', JArray [JString ''why''])])"
    and f4: "jfield exampleOutput ''coding'' = Some (JObject [(''codingIssue'', JString ''count the rows'')])"
    by (simp_all add: jfield_def exampleOutput_def)
  note s1 = T [THEN C2, THEN C2, THEN C2, THEN C2, THEN conjunct1, rule_format, OF conjI [OF TrueI conjI [OF c f1]]]
  note s2 = T [THEN C2, THEN C2, THEN C2, THEN C2, THEN C2, THEN conjunct1, rule_format, OF conjI [OF TrueI conjI [OF c f2]]]
  note s3 = T [THEN C2, THEN C2, THEN C2, THEN C2, THEN C2, THEN C2, THEN conjunct1, rule_format, OF conjI [OF TrueI conjI [OF c f3]]]
  note s4 = T [THEN C2, THEN C2, THEN C2, THEN C2, THEN C2, THEN C2, THEN C2, rule_format, OF conjI [OF TrueI conjI [OF c f4]]]
  show ?thesis
    by (intro conjI c e o s1 s2 s3 s4)
qed


section \<open>Token tracker (utils/token-tracker)\<close>

text \<open>
  The tracker keeps the list of usages pushed to it, each with the name of the tool that
  spent it; \<open>getTotalUsage\<close> sums them. Of a usage only its \<open>totalTokens\<close> count is modelled.
\<close>

type_synonym token_tracker = "(string \<times> nat) list"

definition trackUsage :: "string \<Rightarrow> nat \<Rightarrow> token_tracker \<Rightarrow> token_tracker" where
  "trackUsage tool u tr = tr @ [(tool, u)]"

definition getTotalUsage :: "token_tracker \<Rightarrow> nat" where
  "getTotalUsage tr = sum_list (map snd tr)"

section \<open>Safe object generation (utils/safe-generator)\<close>

text \<open>
  Errors are values. \<open>NoObjectGeneratedError\<close> is the SDK's typed failure: it carries the raw
  text the model produced (which may be undefined) and the usage of the failed call.
  \<open>AxiosError\<close> carries the HTTP status of the response, when there is one.
\<close>

datatype error =
    Error string
  | TypeError string
  | NoObjectGeneratedError "string option" nat
  | AxiosError "nat option"

text \<open>
  The SDK's \<open>generateObject\<close>, \<open>JSON.parse\<close> and \<open>Hjson.parse\<close> are external. The SDK is
  an oracle answering the n-th call made to it; the two parsers are parameters (\<open>None\<close>
  where the parser throws). The world records, in order, every call made to the three of
  them, and holds the usages pushed to the token tracker.
\<close>

record generate_result =
  object :: json
  usage :: nat

type_synonym core_message = "string \<times> string"

record sdk_call =
  callModel :: string
  callSchema :: zod
  callPrompt :: "string option"
  callSystem :: "string option"
  callMessages :: "core_message list option"

datatype event =
    ModelCall sdk_call
  | JsonParse "string option"
  | HjsonParse "string option"

record world =
  calls :: nat
  trace :: "event list"
  usages :: token_tracker

record parsers =
  jsonParse :: "string \<Rightarrow> json option"
  hjsonParse :: "string \<Rightarrow> json option"

type_synonym sdk = "nat \<Rightarrow> sdk_call \<Rightarrow> error + generate_result"

record generate_options =
  model :: string
  schema :: zod
  prompt :: "string option"
  system :: "string option"
  messages :: "core_message list option"
  numRetries :: nat

text \<open>
  \<open>createDistilledSchema\<close> for zod schemas: objects are rebuilt key by key, arrays and
  strings are replaced by fresh ones (without description or bounds), every other
  schema is returned as it is.
\<close>

fun stripZodDescriptions :: "zod \<Rightarrow> zod" where
  "stripZodDescriptions (ZodObject shape) =
     ZodObject (map (\<lambda>ks. (fst ks, stripZodDescriptions (snd ks))) shape)"
| "stripZodDescriptions (ZodArray el mx d) = ZodArray (stripZodDescriptions el) None None"
| "stripZodDescriptions (ZodString mn mx d) = ZodString None None None"
| "stripZodDescriptions z = z"

definition createDistilledSchema :: "zod \<Rightarrow> zod" where
  "createDistilledSchema sch = stripZodDescriptions sch"

text \<open>\<open>this.tokenTracker.trackUsage\<close> on the tracker held by the world.\<close>

definition track :: "string \<Rightarrow> nat \<Rightarrow> world \<Rightarrow> world" where
  "track tool u w = w\<lparr>usages := trackUsage tool u (usages w)\<rparr>"

definition emit :: "event \<Rightarrow> world \<Rightarrow> world" where
  "emit ev w = w\<lparr>trace := trace w @ [ev]\<rparr>"

definition callSdk :: "sdk \<Rightarrow> sdk_call \<Rightarrow> world \<Rightarrow> (error + generate_result) \<times> world" where
  "callSdk sdk c w = (sdk (calls w) c, emit (ModelCall c) (w\<lparr>calls := Suc (calls w)\<rparr>))"

definition parseWith :: "(string \<Rightarrow> json option) \<Rightarrow> string option \<Rightarrow> json option" where
  "parseWith f txt = (case txt of None \<Rightarrow> None | Some t \<Rightarrow> f t)"

text \<open>
  \<open>handleGenerateObjectError\<close>: for a \<open>NoObjectGeneratedError\<close>, \<open>JSON.parse\<close> of its text,
  then \<open>Hjson.parse\<close>; the error itself is rethrown when both fail, and at once for any
  other error. Both parsers throw on an undefined text.
\<close>

definition handleGenerateObjectError ::
  "parsers \<Rightarrow> error \<Rightarrow> world \<Rightarrow> (error + generate_result) \<times> world" where
  "handleGenerateObjectError P err w =
     (case err of
        NoObjectGeneratedError txt u \<Rightarrow>
          (let w1 = emit (JsonParse txt) w in
           case parseWith (jsonParse P) txt of
             Some partialResponse \<Rightarrow> (Inr \<lparr>object = partialResponse, usage = u\<rparr>, w1)
           | None \<Rightarrow>
               (let w2 = emit (HjsonParse txt) w1 in
                case parseWith (hjsonParse P) txt of
                  Some hjsonResponse \<Rightarrow> (Inr \<lparr>object = hjsonResponse, usage = u\<rparr>, w2)
                | None \<Rightarrow> (Inl err, w2)))
      | _ \<Rightarrow> (Inl err, w))"

text \<open>
  The failed output handed to the fallback model:
  \<open>text.slice(0, Math.min(text.lastIndexOf('"url":'), 8000))\<close>, where \<open>lastIndexOf\<close> is -1
  when the key does not occur and a negative end counts from the end of the string;
  the empty string when the error is not a \<open>NoObjectGeneratedError\<close>; a \<open>TypeError\<close> when
  the text is undefined.
\<close>

definition lastIndexOf :: "string \<Rightarrow> string \<Rightarrow> int" where
  "lastIndexOf pat s =
     (case filter (\<lambda>i. take (length pat) (drop i s) = pat) (rev [0..<Suc (length s)]) of
        [] \<Rightarrow> - 1
      | i # _ \<Rightarrow> int i)"

definition slice0 :: "string \<Rightarrow> int \<Rightarrow> string" where
  "slice0 s e = (if e < 0 then take (nat (int (length s) + e)) s else take (nat e) s)"

definition urlKey :: string where
  "urlKey = CHR 0x22 # ''url'' @ [CHR 0x22, CHR '':'']"

definition failedOutputOf :: "error \<Rightarrow> error + string" where
  "failedOutputOf parseError =
     (case parseError of
        NoObjectGeneratedError txt u \<Rightarrow>
          (case txt of
             None \<Rightarrow> Inl (TypeError ''Cannot read properties of undefined'')
           | Some t \<Rightarrow> Inr (slice0 t (min (lastIndexOf urlKey t) 8000)))
      | _ \<Rightarrow> Inr '''')"

definition extractionPrompt :: "string \<Rightarrow> string" where
  "extractionPrompt failedOutput =
     ''Following the given JSON schema, extract the field from below: '' @
     [CHR 10, CHR 10] @ '' '' @ failedOutput"

definition primaryCall :: "generate_options \<Rightarrow> sdk_call" where
  "primaryCall opts =
     \<lparr>callModel = model opts, callSchema = schema opts, callPrompt = prompt opts,
      callSystem = system opts, callMessages = messages opts\<rparr>"

definition fallbackCall :: "generate_options \<Rightarrow> string \<Rightarrow> sdk_call" where
  "fallbackCall opts failedOutput =
     \<lparr>callModel = ''fallback'', callSchema = createDistilledSchema (schema opts),
      callPrompt = Some (extractionPrompt failedOutput), callSystem = None,
      callMessages = None\<rparr>"

text \<open>
  The third and fourth fallbacks (the fallback model on the distilled schema, then the
  tolerant parse of its failure), and \<open>generateObject\<close> itself: primary call, tolerant
  parse of its failure, retry while \<open>numRetries\<close> is positive, then the fallbacks.
\<close>

definition fallbackTiers ::
  "parsers \<Rightarrow> sdk \<Rightarrow> generate_options \<Rightarrow> error \<Rightarrow> error \<Rightarrow> world \<Rightarrow>
     (error + generate_result) \<times> world" where
  "fallbackTiers P sdk opts err parseError w =
     (let attempt =
        (case failedOutputOf parseError of
           Inl fallbackError \<Rightarrow> (Inl fallbackError, w)
         | Inr failedOutput \<Rightarrow>
             (case callSdk sdk (fallbackCall opts failedOutput) w of
                (Inr fallbackResult, w1) \<Rightarrow>
                  (Inr fallbackResult, track ''fallback'' (usage fallbackResult) w1)
              | (Inl fallbackError, w1) \<Rightarrow> (Inl fallbackError, w1)))
      in case attempt of
           (Inr fallbackResult, w2) \<Rightarrow> (Inr fallbackResult, w2)
         | (Inl fallbackError, w2) \<Rightarrow>
             (case handleGenerateObjectError P fallbackError w2 of
                (Inr lastChanceResult, w3) \<Rightarrow>
                  (Inr lastChanceResult, track ''fallback'' (usage lastChanceResult) w3)
              | (Inl finalError, w3) \<Rightarrow> (Inl err, w3)))"

function generateObject ::
  "parsers \<Rightarrow> sdk \<Rightarrow> generate_options \<Rightarrow> world \<Rightarrow> (error + generate_result) \<times> world" where
  "generateObject P sdk opts w =
     (if model opts = [] then (Inl (Error ''Model and schema are required parameters''), w)
      else
        case callSdk sdk (primaryCall opts) w of
          (Inr result, w1) \<Rightarrow> (Inr result, track (model opts) (usage result) w1)
        | (Inl err, w1) \<Rightarrow>
            (case handleGenerateObjectError P err w1 of
               (Inr errorResult, w2) \<Rightarrow>
                 (Inr errorResult, track (model opts) (usage errorResult) w2)
             | (Inl parseError, w2) \<Rightarrow>
                 if 0 < numRetries opts
                 then generateObject P sdk (opts\<lparr>numRetries := numRetries opts - 1\<rparr>) w2
                 else fallbackTiers P sdk opts err parseError w2))"
  by pat_completeness auto
termination
  by (relation "measure (\<lambda>(P, sdk, opts, w). numRetries opts)") auto


declare generateObject.simps [simp del]

text \<open>The outcome of the tolerant parse, the parser calls it makes, the usage it reports and
  the world after one failed attempt, as functions of the error.\<close>

definition manualParse :: "parsers \<Rightarrow> error \<Rightarrow> json option" where
  "manualParse P err =
     (case err of
        NoObjectGeneratedError txt u \<Rightarrow>
          (case parseWith (jsonParse P) txt of
             Some v \<Rightarrow> Some v
           | None \<Rightarrow> parseWith (hjsonParse P) txt)
      | _ \<Rightarrow> None)"

definition parseEvents :: "parsers \<Rightarrow> error \<Rightarrow> event list" where
  "parseEvents P err =
     (case err of
        NoObjectGeneratedError txt u \<Rightarrow>
          (case parseWith (jsonParse P) txt of
             Some v \<Rightarrow> [JsonParse txt]
           | None \<Rightarrow> [JsonParse txt, HjsonParse txt])
      | _ \<Rightarrow> [])"

definition errUsage :: "error \<Rightarrow> nat" where
  "errUsage err = (case err of NoObjectGeneratedError txt u \<Rightarrow> u | _ \<Rightarrow> 0)"

definition afterAttempt :: "parsers \<Rightarrow> generate_options \<Rightarrow> error \<Rightarrow> world \<Rightarrow> world" where
  "afterAttempt P opts err w =
     w\<lparr>calls := Suc (calls w),
       trace := trace w @ ModelCall (primaryCall opts) # parseEvents P err\<rparr>"

subsection \<open>The order of the fallback tiers\<close>

lemma handleGenerateObjectError_eq:
  "handleGenerateObjectError P err w =
     ((case manualParse P err of
         Some v \<Rightarrow> Inr \<lparr>object = v, usage = errUsage err\<rparr>
       | None \<Rightarrow> Inl err),
      w\<lparr>trace := trace w @ parseEvents P err\<rparr>)"
  by (cases err)
     (simp_all add: handleGenerateObjectError_def manualParse_def parseEvents_def errUsage_def
        emit_def Let_def split: option.splits)

lemma primaryCall_numRetries [simp]:
  "primaryCall (opts\<lparr>numRetries := n\<rparr>) = primaryCall opts"
  by (simp add: primaryCall_def)

lemma generateObject_primary_ok:
  assumes "model opts \<noteq> []" and "sdk (calls w) (primaryCall opts) = Inr r"
  shows "generateObject P sdk opts w =
     (Inr r, track (model opts) (usage r)
        (emit (ModelCall (primaryCall opts)) (w\<lparr>calls := Suc (calls w)\<rparr>)))"
  using assms by (subst generateObject.simps) (simp add: callSdk_def)

lemma generateObject_manual_ok:
  assumes "model opts \<noteq> []" and "sdk (calls w) (primaryCall opts) = Inl err"
    and "manualParse P err = Some v"
  shows "generateObject P sdk opts w =
     (Inr \<lparr>object = v, usage = errUsage err\<rparr>,
      track (model opts) (errUsage err) (afterAttempt P opts err w))"
  using assms
  by (subst generateObject.simps)
     (simp add: callSdk_def handleGenerateObjectError_eq afterAttempt_def emit_def track_def trackUsage_def)

text \<open>A value recovered by the tolerant parse is returned as it is, whether or not it
  conforms to the schema of the call.\<close>

lemma generateObject_unchecked:
  assumes "model opts \<noteq> []"
    and "sdk (calls w) (primaryCall opts) = Inl (NoObjectGeneratedError (Some t) u)"
    and "jsonParse P t = Some v"
  shows "fst (generateObject P sdk opts w) = Inr \<lparr>object = v, usage = u\<rparr>"
proof -
  have "manualParse P (NoObjectGeneratedError (Some t) u) = Some v"
    using assms(3) by (simp add: manualParse_def parseWith_def)
  with assms(1,2) show ?thesis
    by (simp add: generateObject_manual_ok errUsage_def)
qed

lemma generateObject_retry:
  assumes "model opts \<noteq> []" and "sdk (calls w) (primaryCall opts) = Inl err"
    and "manualParse P err = None" and "0 < numRetries opts"
  shows "generateObject P sdk opts w =
     generateObject P sdk (opts\<lparr>numRetries := numRetries opts - 1\<rparr>) (afterAttempt P opts err w)"
  using assms
  by (subst generateObject.simps)
     (simp add: callSdk_def handleGenerateObjectError_eq afterAttempt_def emit_def)

lemma generateObject_fallback:
  assumes "model opts \<noteq> []" and "sdk (calls w) (primaryCall opts) = Inl err"
    and "manualParse P err = None" and "numRetries opts = 0"
  shows "generateObject P sdk opts w =
     fallbackTiers P sdk opts err err (afterAttempt P opts err w)"
  using assms
  by (subst generateObject.simps)
     (simp add: callSdk_def handleGenerateObjectError_eq afterAttempt_def emit_def)

lemma fallbackTiers_eq:
  assumes "failedOutputOf err = Inr out"
  shows "fallbackTiers P sdk opts err err w =
     (case sdk (calls w) (fallbackCall opts out) of
        Inr r \<Rightarrow>
          (Inr r, track ''fallback'' (usage r)
             (emit (ModelCall (fallbackCall opts out)) (w\<lparr>calls := Suc (calls w)\<rparr>)))
      | Inl fe \<Rightarrow>
          (case manualParse P fe of
             Some v \<Rightarrow>
               (Inr \<lparr>object = v, usage = errUsage fe\<rparr>,
                track ''fallback'' (errUsage fe)
                  (w\<lparr>calls := Suc (calls w),
                     trace := trace w @ ModelCall (fallbackCall opts out) # parseEvents P fe\<rparr>))
           | None \<Rightarrow>
               (Inl err,
                w\<lparr>calls := Suc (calls w),
                  trace := trace w @ ModelCall (fallbackCall opts out) # parseEvents P fe\<rparr>)))"
  using assms
  by (simp add: fallbackTiers_def callSdk_def handleGenerateObjectError_eq emit_def track_def trackUsage_def
      split: sum.splits option.splits)

lemma fallbackTiers_undefined_text:
  assumes "failedOutputOf err = Inl fe"
  shows "fallbackTiers P sdk opts err err w = (Inl err, w)"
proof -
  from assms obtain u where "err = NoObjectGeneratedError None u"
    and "fe = TypeError ''Cannot read properties of undefined''"
    by (auto simp add: failedOutputOf_def split: error.splits option.splits)
  then show ?thesis
    using assms by (simp add: fallbackTiers_def handleGenerateObjectError_def)
qed

lemma fallbackTiers_error:
  "fallbackTiers P sdk opts err err w = (Inl e, w') \<Longrightarrow> e = err"
  by (cases "failedOutputOf err")
     (auto simp add: fallbackTiers_undefined_text fallbackTiers_eq split: sum.splits option.splits)

lemma generateObject_error_all_tiers:
  "model opts \<noteq> [] \<Longrightarrow> generateObject P sdk opts w = (Inl e, w') \<Longrightarrow>
     sdk (calls w + numRetries opts) (primaryCall opts) = Inl e \<and>
     (\<forall>i \<le> numRetries opts. \<exists>ei. sdk (calls w + i) (primaryCall opts) = Inl ei \<and>
          manualParse P ei = None)"
proof (induction P sdk opts w rule: generateObject.induct)
  case (1 P sdk opts w)
  show ?case
  proof (cases "sdk (calls w) (primaryCall opts)")
    case (Inr r)
    then show ?thesis
      using "1.prems" by (simp add: generateObject_primary_ok)
  next
    case (Inl err)
    show ?thesis
    proof (cases "manualParse P err")
      case (Some v)
      then show ?thesis
        using "1.prems" Inl by (simp add: generateObject_manual_ok)
    next
      case None
      show ?thesis
      proof (cases "0 < numRetries opts")
        case False
        then have z: "numRetries opts = 0" by simp
        have "generateObject P sdk opts w =
            fallbackTiers P sdk opts err err (afterAttempt P opts err w)"
          using "1.prems"(1) Inl None z by (rule generateObject_fallback)
        with "1.prems"(2) have "e = err"
          using fallbackTiers_error by metis
        then show ?thesis
          using Inl None z by simp
      next
        case True
        let ?opts = "opts\<lparr>numRetries := numRetries opts - 1\<rparr>"
        let ?w = "afterAttempt P opts err w"
        have eq: "generateObject P sdk opts w = generateObject P sdk ?opts ?w"
          using "1.prems"(1) Inl None True by (rule generateObject_retry)
        have h: "handleGenerateObjectError P err (snd (callSdk sdk (primaryCall opts) w)) =
            (Inl err, ?w)"
          using None
          by (simp add: handleGenerateObjectError_eq callSdk_def afterAttempt_def emit_def)
        have c: "callSdk sdk (primaryCall opts) w = (Inl err, snd (callSdk sdk (primaryCall opts) w))"
          using Inl by (simp add: callSdk_def)
        have IH: "sdk (calls ?w + numRetries ?opts) (primaryCall ?opts) = Inl e \<and>
            (\<forall>i \<le> numRetries ?opts. \<exists>ei. sdk (calls ?w + i) (primaryCall ?opts) = Inl ei \<and>
               manualParse P ei = None)"
          using "1.IH" [OF "1.prems"(1) c [symmetric] refl h [symmetric] refl True] "1.prems" eq
          by simp
        have cw: "calls ?w = Suc (calls w)" by (simp add: afterAttempt_def)
        have last: "sdk (calls w + numRetries opts) (primaryCall opts) = Inl e"
          using IH True cw by simp
        have all: "\<exists>ei. sdk (calls w + i) (primaryCall opts) = Inl ei \<and> manualParse P ei = None"
          if "i \<le> numRetries opts" for i
        proof (cases i)
          case 0
          then show ?thesis using Inl None by simp
        next
          case (Suc j)
          with that have "j \<le> numRetries ?opts" by simp
          with IH obtain ei where "sdk (calls ?w + j) (primaryCall ?opts) = Inl ei"
            and "manualParse P ei = None" by blast
          then show ?thesis using Suc cw by simp
        qed
        show ?thesis using last all by blast
      qed
    qed
  qed
qed

lemma lastIndexOf_lt:
  "pat \<noteq> [] \<Longrightarrow> lastIndexOf pat s < int (length s)"
proof -
  assume p: "pat \<noteq> []"
  have "i < length s" if "i \<in> set (filter (\<lambda>i. take (length pat) (drop i s) = pat) (rev [0..<Suc (length s)]))" for i
  proof -
    from that have a: "i \<le> length s" and b: "take (length pat) (drop i s) = pat"
      by (simp_all add: less_Suc_eq_le del: upt_Suc)
    show ?thesis
    proof (rule ccontr)
      assume "\<not> i < length s"
      with a have "i = length s" by simp
      with b p show False by simp
    qed
  qed
  then show ?thesis
    unfolding lastIndexOf_def
    by (cases "filter (\<lambda>i. take (length pat) (drop i s) = pat) (rev [0..<Suc (length s)])")
       (auto split: list.splits)
qed

lemma failedOutput_cut:
  assumes "0 \<le> lastIndexOf urlKey t"
  shows "failedOutputOf (NoObjectGeneratedError (Some t) u) =
           Inr (take (nat (min (lastIndexOf urlKey t) 8000)) t) \<and>
         nat (min (lastIndexOf urlKey t) 8000) < length t"
proof -
  have "lastIndexOf urlKey t < int (length t)"
    using lastIndexOf_lt [of urlKey t] by (simp add: urlKey_def)
  with assms have "nat (min (lastIndexOf urlKey t) 8000) < length t"
    by linarith
  with assms show ?thesis
    by (simp add: failedOutputOf_def slice0_def)
qed

lemma manualParse_only_NoObject:
  "manualParse P err = Some v \<Longrightarrow> \<exists>t u. err = NoObjectGeneratedError (Some t) u"
  by (cases err) (auto simp add: manualParse_def parseWith_def split: option.splits)


text \<open>Concrete parsers, options and oracles: a model whose first output is garbled, and a
  model that is down.\<close>

definition P0 :: parsers where
  "P0 = \<lparr>jsonParse = (\<lambda>s. if s = ''{}'' then Some (JObject []) else None),
         hjsonParse = (\<lambda>s. if s = ''{a:1}'' then Some (JObject [(''a'', JNumber 1)]) else None)\<rparr>"

definition opts0 :: generate_options where
  "opts0 = \<lparr>model = ''agent'', schema = getAgentSchema sg0 False False True False False None,
            prompt = None, system = Some ''be brief'', messages = Some [(''user'', ''why'')],
            numRetries = 0\<rparr>"

definition w0 :: world where
  "w0 = \<lparr>calls = 0, trace = [], usages = []\<rparr>"

text \<open>The failed text of the examples: a JSON object broken off inside its \<open>url\<close> field.\<close>

definition garbled :: string where
  "garbled = ''{x:1,'' @ urlKey @ ''htt''"

definition sdkGarbled :: sdk where
  "sdkGarbled i c =
     (if i = 0 then Inl (NoObjectGeneratedError (Some garbled) 7)
      else Inr \<lparr>object = JObject [(''action'', JString ''answer'')], usage = 5\<rparr>)"

definition sdkDown :: sdk where
  "sdkDown i c = Inl (NoObjectGeneratedError (Some garbled) 7)"

lemma lastIndexOf_garbled: "lastIndexOf urlKey garbled = 5"
  by (simp add: lastIndexOf_def urlKey_def garbled_def)

lemma failedOutput_garbled:
  "failedOutputOf (NoObjectGeneratedError (Some garbled) 7) = Inr ''{x:1,''"
  using failedOutput_cut [of garbled 7] by (simp add: lastIndexOf_garbled) (simp add: garbled_def)

lemma manualParse_garbled:
  "manualParse P0 (NoObjectGeneratedError (Some garbled) 7) = None"
  by (simp add: manualParse_def parseWith_def P0_def garbled_def urlKey_def)

lemma generateObject_sdkGarbled:
  "generateObject P0 sdkGarbled opts0 w0 =
     (Inr \<lparr>object = JObject [(''action'', JString ''answer'')], usage = 5\<rparr>,
      \<lparr>calls = 2,
       trace = [ModelCall (primaryCall opts0), JsonParse (Some garbled), HjsonParse (Some garbled),
                ModelCall (fallbackCall opts0 ''{x:1,'')],
       usages = [(''fallback'', 5)]\<rparr>)"
proof -
  have m: "model opts0 \<noteq> []" and n: "numRetries opts0 = 0"
    by (simp_all add: opts0_def)
  have p: "sdkGarbled (calls w0) (primaryCall opts0) = Inl (NoObjectGeneratedError (Some garbled) 7)"
    by (simp add: sdkGarbled_def w0_def)
  have e: "parseEvents P0 (NoObjectGeneratedError (Some garbled) 7) =
             [JsonParse (Some garbled), HjsonParse (Some garbled)]"
    by (simp add: parseEvents_def parseWith_def P0_def garbled_def urlKey_def)
  show ?thesis
    unfolding generateObject_fallback [where sdk = sdkGarbled and w = w0 and P = P0,
        OF m p manualParse_garbled n]
      fallbackTiers_eq [OF failedOutput_garbled]
    by (simp add: afterAttempt_def e w0_def sdkGarbled_def track_def trackUsage_def emit_def)
qed


lemma generateObject_sdkDown_retries:
  "fst (generateObject P0 sdkDown (opts0\<lparr>numRetries := 2\<rparr>) w0) =
     Inl (NoObjectGeneratedError (Some garbled) 7) \<and>
   calls (snd (generateObject P0 sdkDown (opts0\<lparr>numRetries := 2\<rparr>) w0)) = 4"
  by (simp add: generateObject.simps callSdk_def handleGenerateObjectError_eq manualParse_garbled
      sdkDown_def opts0_def emit_def w0_def fallbackTiers_eq [OF failedOutput_garbled])



section \<open>Data model (types)\<close>

text \<open>
  A step is the action chosen by the model with the fields of that action spread into
  it. \<open>URLTargets\<close> holds the indices the model chose until the visit branch replaces them
  by the URLs they resolve to. An absent field is \<open>None\<close>; \<open>isFinal\<close> and \<open>isAggregated\<close> are
  only ever tested for truth, so an absent flag is \<open>False\<close>.
\<close>

datatype url_target = TargetIndex int | TargetURL string

record step_action =
  action :: string
  think :: string
  answer :: "string option"
  references :: "string list"
  isFinal :: bool
  isAggregated :: bool
  mdAnswer :: "string option"
  searchRequests :: "string list option"
  URLTargets :: "url_target list option"
  questionsToAnswer :: "string list option"
  codingIssue :: "string option"

record serp_query =
  query_q :: string
  query_tbs :: "string option"

record raw_snippet =
  raw_title :: string
  raw_url :: string
  raw_description :: string
  raw_date :: "string option"

record search_snippet =
  snippet_title :: string
  snippet_url :: string
  snippet_description :: string
  snippet_weight :: nat
  snippet_date :: "string option"

record web_content =
  content_title :: string
  content_chunks :: "string list"
  content_chunk_positions :: "(nat \<times> nat) list"

datatype knowledge_type = KUrl | KSideInfo | KQa | KCoding

record knowledge_item =
  k_question :: string
  k_answer :: string
  k_type :: knowledge_type
  k_references :: "string list option"
  k_updated :: "string option"
  k_sourceCode :: "string option"

record serp_cluster =
  cluster_insight :: string
  cluster_question :: string
  cluster_urls :: "string list"

type_synonym url_registry = "(string \<times> search_snippet) list"

text \<open>What the action tracker is told: a thought, a search request, or a step of the loop
  with its number and the gaps at that time.\<close>

datatype tracked =
    TrackThink string
  | TrackSearch string
  | TrackStep nat step_action "string list"

text \<open>
  The pure helpers of other modules that the code below calls, and the configured default
  search provider, are parameters.
\<close>

record tools =
  normalizeUrl :: "string \<Rightarrow> string option"
  addToAllURLs :: "search_snippet \<Rightarrow> url_registry \<Rightarrow> url_registry"
  removeHTMLtags :: "string \<Rightarrow> string"
  formatDateRange :: "serp_query \<Rightarrow> string"
  SEARCH_PROVIDER :: string

section \<open>Search execution (agent: executeSearchQueries)\<close>

text \<open>
  The search providers and the SERP clustering are external: an oracle answers the search
  for the i-th query of a run (given the provider chosen and the query as sent) and the
  clustering of its results. The function works on the URL registry, the web contents and
  the action tracker of the session. The utility score is only logged and the pause after
  each query has no effect on the result; neither is modelled.
\<close>

record search_oracle =
  searchCall :: "nat \<Rightarrow> string \<Rightarrow> serp_query \<Rightarrow> error + raw_snippet list"
  serpCluster :: "nat \<Rightarrow> search_snippet list \<Rightarrow> error + serp_cluster list"

record search_state =
  allURLs :: url_registry
  webContents :: "string \<rightharpoonup> web_content"
  tracked :: "tracked list"

record search_output =
  newKnowledge :: "knowledge_item list"
  searchedQueries :: "string list"

text \<open>\<open>Array.join\<close>; the hostname restriction appended to a query; the provider the
  switch selects (\<open>searchProvider || SEARCH_PROVIDER\<close>).\<close>

fun joinWith :: "string \<Rightarrow> string list \<Rightarrow> string" where
  "joinWith sep [] = []"
| "joinWith sep [x] = x"
| "joinWith sep (x # y # ys) = x @ sep @ joinWith sep (y # ys)"

definition nonEmptyList :: "'a list option \<Rightarrow> bool" where
  "nonEmptyList xs = (case xs of None \<Rightarrow> False | Some ys \<Rightarrow> ys \<noteq> [])"

definition withHostnames :: "string list option \<Rightarrow> serp_query \<Rightarrow> serp_query" where
  "withHostnames onlyHostnames query =
     (if nonEmptyList onlyHostnames
      then query\<lparr>query_q := query_q query @ '' site:'' @ joinWith '' OR site:'' (the onlyHostnames)\<rparr>
      else query)"

definition providerOf :: "tools \<Rightarrow> string option \<Rightarrow> string" where
  "providerOf T searchProvider =
     (case searchProvider of
        None \<Rightarrow> SEARCH_PROVIDER T
      | Some p \<Rightarrow> if p = [] then SEARCH_PROVIDER T else p)"

text \<open>
  The search of one query, as the \<open>try\<close> block runs it: the provider's call for the five
  known providers, no result for any other; an empty result is the error
  \<open>No results found\<close>. The \<open>catch\<close> block rethrows only an Axios error of status 401 when
  the \<open>searchProvider\<close> argument itself is \<open>jina\<close> or \<open>arxiv\<close>.
\<close>

definition runSearch ::
  "tools \<Rightarrow> search_oracle \<Rightarrow> nat \<Rightarrow> string option \<Rightarrow> serp_query \<Rightarrow> error + raw_snippet list" where
  "runSearch T orc i searchProvider query =
     (let provider = providerOf T searchProvider;
          results =
            (if provider \<in> {''jina'', ''arxiv'', ''duck'', ''brave'', ''serper''}
             then searchCall orc i provider query
             else Inr [])
      in case results of
           Inl err \<Rightarrow> Inl err
         | Inr rs \<Rightarrow> if length rs = 0 then Inl (Error ''No results found'') else Inr rs)"

definition unauthorized :: "error \<Rightarrow> string option \<Rightarrow> bool" where
  "unauthorized err searchProvider =
     ((case err of AxiosError status \<Rightarrow> status = Some 401 | _ \<Rightarrow> False) \<and>
      (searchProvider = Some ''jina'' \<or> searchProvider = Some ''arxiv''))"

text \<open>The results of a successful search: normalised, recorded, clustered.\<close>

definition toSnippet :: "tools \<Rightarrow> raw_snippet \<Rightarrow> search_snippet option" where
  "toSnippet T r =
     (case normalizeUrl T (raw_url r) of
        None \<Rightarrow> None
      | Some url \<Rightarrow>
          if url = [] then None
          else Some \<lparr>snippet_title = raw_title r, snippet_url = url,
                snippet_description = raw_description r, snippet_weight = 1,
                snippet_date = raw_date r\<rparr>)"

definition recordSnippet :: "tools \<Rightarrow> 'a search_state_scheme \<Rightarrow> search_snippet \<Rightarrow> 'a search_state_scheme" where
  "recordSnippet T st r =
     st\<lparr>allURLs := addToAllURLs T r (allURLs st),
        webContents := (webContents st)(snippet_url r \<mapsto>
          \<lparr>content_title = snippet_title r,
           content_chunks = [snippet_description r],
           content_chunk_positions = [(0, length (snippet_description r))]\<rparr>)\<rparr>"

definition clusterKnowledge :: "serp_cluster \<Rightarrow> knowledge_item" where
  "clusterKnowledge c =
     \<lparr>k_question = cluster_question c, k_answer = cluster_insight c, k_type = KUrl,
      k_references = Some (cluster_urls c), k_updated = None, k_sourceCode = None\<rparr>"

definition sideInfoKnowledge :: "tools \<Rightarrow> string \<Rightarrow> serp_query \<Rightarrow> search_snippet list \<Rightarrow> knowledge_item" where
  "sideInfoKnowledge T oldQuery query minResults =
     \<lparr>k_question = ''What do Internet say about '' @ [CHR 0x22] @ oldQuery @ [CHR 0x22] @ ''?'',
      k_answer = removeHTMLtags T (joinWith ''; '' (map snippet_description minResults)),
      k_type = KSideInfo,
      k_references = None,
      k_updated = (case query_tbs query of None \<Rightarrow> None | Some t \<Rightarrow>
                     if t = [] then None else Some (formatDateRange T query)),
      k_sourceCode = None\<rparr>"

text \<open>The loop over the queries, and the function around it.\<close>

fun searchLoop ::
  "tools \<Rightarrow> search_oracle \<Rightarrow> string list option \<Rightarrow> string option \<Rightarrow> nat \<Rightarrow> serp_query list \<Rightarrow>
     search_output \<Rightarrow> 'a search_state_scheme \<Rightarrow>
     error + (search_output \<times> 'a search_state_scheme)" where
  "searchLoop T orc onlyHostnames searchProvider i [] out st = Inr (out, st)"
| "searchLoop T orc onlyHostnames searchProvider i (query0 # rest) out st =
     (let oldQuery = query_q query0;
          query = withHostnames onlyHostnames query0
      in case runSearch T orc i searchProvider query of
           Inl err \<Rightarrow>
             if unauthorized err searchProvider
             then Inl (Error ''Unauthorized Jina API key'')
             else searchLoop T orc onlyHostnames searchProvider (Suc i) rest out st
         | Inr results \<Rightarrow>
             (let minResults = List.map_filter (toSnippet T) results;
                  st1 = foldl (recordSnippet T) st minResults;
                  out1 = out\<lparr>searchedQueries := searchedQueries out @ [query_q query]\<rparr>;
                  out2 = (case serpCluster orc i minResults of
                            Inr clusters \<Rightarrow>
                              out1\<lparr>newKnowledge := newKnowledge out1 @ map clusterKnowledge clusters\<rparr>
                          | Inl err \<Rightarrow> out1);
                  out3 = out2\<lparr>newKnowledge := newKnowledge out2 @
                            [sideInfoKnowledge T oldQuery query minResults]\<rparr>;
                  st2 = st1\<lparr>tracked := tracked st1 @ [TrackSearch oldQuery]\<rparr>
              in searchLoop T orc onlyHostnames searchProvider (Suc i) rest out3 st2))"

definition executeSearchQueries ::
  "tools \<Rightarrow> search_oracle \<Rightarrow> serp_query list \<Rightarrow> string list option \<Rightarrow> string option \<Rightarrow>
     'a search_state_scheme \<Rightarrow> error + (search_output \<times> 'a search_state_scheme)" where
  "executeSearchQueries T orc keywordsQueries onlyHostnames searchProvider st =
     (let st0 = st\<lparr>tracked := tracked st @ [TrackThink ''search_for'']\<rparr>
      in case searchLoop T orc onlyHostnames searchProvider 0 keywordsQueries
                \<lparr>newKnowledge = [], searchedQueries = []\<rparr> st0 of
           Inl err \<Rightarrow> Inl err
         | Inr (out, st1) \<Rightarrow>
             if length (searchedQueries out) = 0 \<and> nonEmptyList onlyHostnames
             then Inr (out, st1\<lparr>tracked := tracked st1 @ [TrackThink ''hostnames_no_results'']\<rparr>)
             else Inr (out, st1))"

subsection \<open>Skipped queries and the fatal failure\<close>

definition knownProvider :: "string \<Rightarrow> bool" where
  "knownProvider p = (p \<in> {''jina'', ''arxiv'', ''duck'', ''brave'', ''serper''})"

lemma runSearch_cases:
  "runSearch T orc i sp query =
     (if knownProvider (providerOf T sp)
      then (case searchCall orc i (providerOf T sp) query of
              Inl err \<Rightarrow> Inl err
            | Inr rs \<Rightarrow> if rs = [] then Inl (Error ''No results found'') else Inr rs)
      else Inl (Error ''No results found''))"
  by (simp add: runSearch_def knownProvider_def Let_def split: sum.splits)

lemma not_unauthorized_no_results [simp]:
  "\<not> unauthorized (Error msg) sp"
  by (simp add: unauthorized_def)

lemma unauthorized_known:
  "unauthorized err sp \<Longrightarrow> knownProvider (providerOf T sp)"
  by (auto simp add: unauthorized_def knownProvider_def providerOf_def)

lemma searchLoop_skip:
  assumes "runSearch T orc i sp (withHostnames oh query) = Inl err"
    and "\<not> unauthorized err sp"
  shows "searchLoop T orc oh sp i (query # rest) out st =
         searchLoop T orc oh sp (Suc i) rest out st"
  using assms by (simp add: Let_def)

lemma searchLoop_abort:
  assumes "runSearch T orc i sp (withHostnames oh query) = Inl err"
    and "unauthorized err sp"
  shows "searchLoop T orc oh sp i (query # rest) out st =
         Inl (Error ''Unauthorized Jina API key'')"
  using assms by (simp add: Let_def)

lemma searchLoop_error:
  fixes st :: "'a search_state_scheme"
  shows "searchLoop T orc oh sp i qs out st = Inl e \<Longrightarrow>
     e = Error ''Unauthorized Jina API key'' \<and>
     (sp = Some ''jina'' \<or> sp = Some ''arxiv'') \<and>
     (\<exists>j < length qs. searchCall orc (i + j) (providerOf T sp) (withHostnames oh (qs ! j)) =
          Inl (AxiosError (Some 401)))"
proof (induction qs arbitrary: i out st)
  case Nil
  then show ?case by simp
next
  case (Cons query rest)
  show ?case
  proof (cases "runSearch T orc i sp (withHostnames oh query)")
    case (Inl err)
    show ?thesis
    proof (cases "unauthorized err sp")
      case True
      then have k: "knownProvider (providerOf T sp)"
        by (rule unauthorized_known)
      from True obtain "err = AxiosError (Some 401)" and sp: "sp = Some ''jina'' \<or> sp = Some ''arxiv''"
        by (auto simp add: unauthorized_def split: error.splits)
      with Inl k have "searchCall orc i (providerOf T sp) (withHostnames oh query) =
          Inl (AxiosError (Some 401))"
        by (auto simp add: runSearch_cases split: sum.splits if_splits)
      then have "\<exists>j < length (query # rest).
          searchCall orc (i + j) (providerOf T sp) (withHostnames oh ((query # rest) ! j)) =
            Inl (AxiosError (Some 401))"
        by (intro exI [of _ 0]) simp
      moreover have "e = Error ''Unauthorized Jina API key''"
        using Cons.prems Inl True by (simp add: Let_def)
      ultimately show ?thesis using sp by blast
    next
      case False
      then have "searchLoop T orc oh sp (Suc i) rest out st = Inl e"
        using Cons.prems Inl by (simp add: Let_def)
      from Cons.IH [OF this] obtain j where "e = Error ''Unauthorized Jina API key''"
        and "sp = Some ''jina'' \<or> sp = Some ''arxiv''" and "j < length rest"
        and "searchCall orc (Suc i + j) (providerOf T sp) (withHostnames oh (rest ! j)) =
          Inl (AxiosError (Some 401))"
        by blast
      then show ?thesis
        by (intro conjI exI [of _ "Suc j"]) simp_all
    qed
  next
    case (Inr results)
    then obtain out' and st' :: "'a search_state_scheme"
      where "searchLoop T orc oh sp (Suc i) rest out' st' = Inl e"
      using Cons.prems by (simp add: Let_def)
    from Cons.IH [OF this] obtain j where "e = Error ''Unauthorized Jina API key''"
      and "sp = Some ''jina'' \<or> sp = Some ''arxiv''" and "j < length rest"
      and "searchCall orc (Suc i + j) (providerOf T sp) (withHostnames oh (rest ! j)) =
        Inl (AxiosError (Some 401))"
      by blast
    then show ?thesis
      by (intro conjI exI [of _ "Suc j"]) simp_all
  qed
qed

lemma executeSearchQueries_error:
  assumes "executeSearchQueries T orc qs oh sp st = Inl e"
  shows "e = Error ''Unauthorized Jina API key'' \<and>
     (sp = Some ''jina'' \<or> sp = Some ''arxiv'') \<and>
     (\<exists>j < length qs. searchCall orc j (providerOf T sp) (withHostnames oh (qs ! j)) =
          Inl (AxiosError (Some 401)))"
proof -
  from assms have "searchLoop T orc oh sp 0 qs \<lparr>newKnowledge = [], searchedQueries = []\<rparr>
      (st\<lparr>tracked := tracked st @ [TrackThink ''search_for'']\<rparr>) = Inl e"
    by (auto simp add: executeSearchQueries_def Let_def split: sum.splits prod.splits if_splits)
  from searchLoop_error [OF this] show ?thesis by simp
qed


text \<open>Concrete tools, a query, an empty state, a provider that answers 401 to every
  search, and one that times out, finds nothing and then answers 401.\<close>

definition T0 :: tools where
  "T0 = \<lparr>normalizeUrl = (\<lambda>u. Some u),
         addToAllURLs = (\<lambda>r reg. if snippet_url r \<in> set (map fst reg) then reg
                                   else reg @ [(snippet_url r, r)]),
         removeHTMLtags = (\<lambda>t. t),
         formatDateRange = (\<lambda>query. ''this week''),
         SEARCH_PROVIDER = ''jina''\<rparr>"

definition q0 :: serp_query where
  "q0 = \<lparr>query_q = ''jina reader'', query_tbs = None\<rparr>"

definition st0 :: search_state where
  "st0 = \<lparr>allURLs = [], webContents = Map.empty, tracked = []\<rparr>"

definition out0 :: search_output where
  "out0 = \<lparr>newKnowledge = [], searchedQueries = []\<rparr>"

definition orc401 :: search_oracle where
  "orc401 = \<lparr>searchCall = (\<lambda>i p query. Inl (AxiosError (Some 401))),
             serpCluster = (\<lambda>i rs. Inr [])\<rparr>"

definition orcMixed :: search_oracle where
  "orcMixed = \<lparr>searchCall = (\<lambda>i p query.
                 if i = 0 then Inl (Error ''timeout'')
                 else if i = 1 then Inr []
                 else Inl (AxiosError (Some 401))),
               serpCluster = (\<lambda>i rs. Inr [])\<rparr>"



section \<open>The agent control loop (agent: getResponse)\<close>

subsection \<open>State, parameters and the environment of one step\<close>

datatype evaluation_type = Definitive | Freshness | Plurality | Completeness | Attribution | Strict

record repeat_evaluation =
  m_type :: evaluation_type
  numEvalsRequired :: int

record evaluation_response =
  pass :: bool
  eval_think :: string
  eval_type :: "evaluation_type option"
  improvement_plan :: "string option"

record error_analysis =
  recap :: string
  blame :: string
  improvement :: string

text \<open>The object the model returns for the agent schema: the reasoning, the action chosen
  and the sub-objects of the actions (absent when the model left them out).\<close>

record agent_object =
  o_think :: string
  o_action :: string
  o_search :: "string list option"
  o_coding :: "string option"
  o_answer :: "string option"
  o_reflect :: "string list option"
  o_visit :: "int list option"

record sub_response =
  sr_answer :: string
  sr_mdAnswer :: "string option"
  sr_references :: "string list"
  sr_readURLs :: "string list"
  sr_allURLs :: "string list"

record process_result =
  pr_urlResults :: "string list"
  pr_success :: bool
  pr_newKnowledge :: "knowledge_item list"
  pr_allURLs :: url_registry
  pr_newVisited :: "string list"
  pr_webContents :: "string \<rightharpoonup> web_content"

text \<open>The diary holds one narrative entry per step; an entry is kept by its kind and the
  values interpolated into its text.\<close>

datatype diary_entry =
    DiaryAnswerGood nat string string string
  | DiaryAnswerBad nat string string string
  | DiarySubAnswerGood nat string string string
  | DiaryReflectNew nat string "string list"
  | DiaryReflectNone nat string "string list"
  | DiarySearchFound nat string "string list"
  | DiarySearchNone nat string "string list"
  | DiaryVisitOk nat "string list"
  | DiaryVisitFailed nat
  | DiaryVisitNone nat
  | DiaryCodingOk nat string
  | DiaryCodingFailed nat string

datatype context_result =
    NoResult
  | ResultText string
  | ResultGenerated
  | ResultURLs "string list"
  | ResultSolution string string

datatype context_entry = ContextEntry nat "string option" step_action context_result

text \<open>The calls made to the collaborators of the loop, in the order they are made.\<close>

datatype ext_call =
    CallEvaluateQuestion string
  | CallRankURLs string
  | CallGenerate string zod
  | CallEvaluateAnswer string "evaluation_type list"
  | CallAnalyzeSteps
  | CallDedupQueries "string list" "string list"
  | CallExecuteSearch "string list"
  | CallResearchPlan
  | CallSubAgents "string list"
  | CallRewriteQuery
  | CallProcessURLs "string list"
  | CallSandbox string
  | CallStoreContext nat

record params =
  question :: string
  tokenBudget :: real
  maxBadAttempts :: int
  noDirectAnswer :: bool
  onlyHostnames :: "string list"
  searchProvider :: "string option"
  teamSize :: int
  schemaGen :: schemas

text \<open>
  What the collaborators answer during one step: the question classifier, the URL ranker
  (the ranked list after the per-hostname cut), the URL list of the prompt, the object
  generator, the answer evaluator (\<open>None\<close> for a result that is not an object), the step
  analyser, the clock, the query deduplication followed by the random choice of k, the
  search providers, the research planner (its first sub-problem and the others), the
  sub-agents, the query rewriter, the URL processor, the code sandbox, and the usages all
  of them push to the token tracker.
\<close>

record env =
  e_evaluateQuestion :: "error + evaluation_type list"
  e_ranked :: "string list"
  e_urlList :: "string list"
  e_generate :: "error + agent_object"
  e_usages :: token_tracker
  e_evaluateAnswer :: "error + evaluation_response option"
  e_analyzeSteps :: "error + error_analysis"
  e_now :: string
  e_dedupReflect :: "error + string list"
  e_dedupSearch :: "error + string list"
  e_search1 :: search_oracle
  e_researchPlan :: "error + string \<times> string list"
  e_subAgents :: "error + sub_response list"
  e_rewriteQuery :: "error + serp_query list"
  e_dedupRewrite :: "error + string list"
  e_search2 :: search_oracle
  e_processURLs :: "error + process_result"
  e_sandbox :: "error + string \<times> string"

record state = search_state +
  step :: nat
  totalStep :: nat
  allContext :: "context_entry list"
  gaps :: "string list"
  allQuestions :: "string list"
  allKeywords :: "string list"
  candidateAnswers :: "string list"
  allKnowledge :: "knowledge_item list"
  diaryContext :: "diary_entry list"
  weightedURLs :: "string list"
  allowAnswer :: bool
  allowSearch :: bool
  allowRead :: bool
  allowReflect :: bool
  allowCoding :: bool
  thisStep :: step_action
  visitedURLs :: "string list"
  evaluationMetrics :: "string \<rightharpoonup> repeat_evaluation list"
  finalAnswerPIP :: "string list"
  trivialQuestion :: bool
  tokenTracker :: token_tracker
  callLog :: "ext_call list"

datatype control = Continue | Break

text \<open>Sequencing of calls that may throw.\<close>

definition andThen :: "error + 'a \<Rightarrow> ('a \<Rightarrow> error + 'b) \<Rightarrow> error + 'b" where
  "andThen r f = (case r of Inl err \<Rightarrow> Inl err | Inr x \<Rightarrow> f x)"

lemma andThen_simps [simp]:
  "andThen (Inl err) f = Inl err"
  "andThen (Inr x) f = f x"
  by (simp_all add: andThen_def)

text \<open>\<open>String.trim\<close> on the ASCII white space; the truth of a string and of an optional
  string; \<open>Array.indexOf\<close> and \<open>Array.splice(start, 1)\<close>; the elements of a list in the
  order of their first occurrence, as spreading a \<open>Set\<close> gives them.\<close>

definition isSpace :: "char \<Rightarrow> bool" where
  "isSpace c = (c \<in> {CHR 0x20, CHR 0x09, CHR 0x0A, CHR 0x0B, CHR 0x0C, CHR 0x0D})"

definition trim :: "string \<Rightarrow> string" where
  "trim s = rev (dropWhile isSpace (rev (dropWhile isSpace s)))"

definition truthy :: "string option \<Rightarrow> bool" where
  "truthy x = (case x of None \<Rightarrow> False | Some t \<Rightarrow> t \<noteq> [])"

fun indexOf :: "'a list \<Rightarrow> 'a \<Rightarrow> int" where
  "indexOf [] x = - 1"
| "indexOf (y # ys) x = (if y = x then 0 else (let i = indexOf ys x in if i < 0 then - 1 else i + 1))"

definition splice1 :: "int \<Rightarrow> 'a list \<Rightarrow> 'a list" where
  "splice1 start xs =
     (let n = int (length xs);
          k = (if start < 0 then max (n + start) 0 else min start n)
      in take (nat k) xs @ drop (Suc (nat k)) xs)"

fun uniq :: "'a list \<Rightarrow> 'a list" where
  "uniq [] = []"
| "uniq (x # xs) = x # uniq (filter (\<lambda>y. y \<noteq> x) xs)"

subsection \<open>The start of a session\<close>

definition regularBudget :: "params \<Rightarrow> real" where
  "regularBudget P = tokenBudget P * 0.85"

definition initialStep :: step_action where
  "initialStep =
     \<lparr>action = ''answer'', think = '''', answer = Some '''', references = [], isFinal = False,
      isAggregated = False, mdAnswer = None, searchRequests = None, URLTargets = None,
      questionsToAnswer = None, codingIssue = None\<rparr>"

definition initialState :: "params \<Rightarrow> token_tracker \<Rightarrow> url_registry \<Rightarrow> state" where
  "initialState P tracker urls =
     \<lparr>allURLs = urls, webContents = Map.empty, tracked = [],
      step = 0, totalStep = 0, allContext = [], gaps = [question P],
      allQuestions = [question P], allKeywords = [], candidateAnswers = [],
      allKnowledge = [], diaryContext = [], weightedURLs = [],
      allowAnswer = True, allowSearch = True, allowRead = True, allowReflect = True,
      allowCoding = False, thisStep = initialStep, visitedURLs = [],
      evaluationMetrics = Map.empty, finalAnswerPIP = [], trivialQuestion = False,
      tokenTracker = tracker, callLog = []\<rparr>"

definition logCall :: "ext_call \<Rightarrow> state \<Rightarrow> state" where
  "logCall c s = s\<lparr>callLog := callLog s @ [c]\<rparr>"

definition updateContext :: "context_entry \<Rightarrow> state \<Rightarrow> state" where
  "updateContext entry s = s\<lparr>allContext := allContext s @ [entry]\<rparr>"

definition pushDiary :: "diary_entry \<Rightarrow> state \<Rightarrow> state" where
  "pushDiary d s = s\<lparr>diaryContext := diaryContext s @ [d]\<rparr>"

subsection \<open>One step: from the loop test to the model's decision\<close>

definition beginStep :: "state \<Rightarrow> state" where
  "beginStep s =
     s\<lparr>step := step s + 1, totalStep := totalStep s + 1,
       allowReflect := (allowReflect s \<and> length (gaps s) \<le> MAX_REFLECT_PER_STEP)\<rparr>"

definition currentQuestionOf :: "state \<Rightarrow> error + string" where
  "currentQuestionOf s =
     (if gaps s = [] then Inl (TypeError ''Cannot read properties of undefined'')
      else Inr (gaps s ! (totalStep s mod length (gaps s))))"

definition includesEval :: "repeat_evaluation list \<Rightarrow> evaluation_type \<Rightarrow> bool" where
  "includesEval allChecks evalType = list_ex (\<lambda>c. m_type c = evalType) allChecks"

definition setupMetrics :: "params \<Rightarrow> env \<Rightarrow> string \<Rightarrow> state \<Rightarrow> error + state" where
  "setupMetrics P E currentQuestion s =
     (if trim currentQuestion = question P \<and> totalStep s = 1
      then
        andThen (e_evaluateQuestion E) (\<lambda>types.
          Inr ((logCall (CallEvaluateQuestion currentQuestion) s)
            \<lparr>evaluationMetrics := (evaluationMetrics s)(currentQuestion \<mapsto>
                map (\<lambda>e. \<lparr>m_type = e, numEvalsRequired = maxBadAttempts P\<rparr>) types @
                [\<lparr>m_type = Strict, numEvalsRequired = maxBadAttempts P\<rparr>])\<rparr>))
      else if trim currentQuestion \<noteq> question P
      then Inr (s\<lparr>evaluationMetrics := (evaluationMetrics s)(currentQuestion \<mapsto> [])\<rparr>)
      else Inr s)"

definition freshnessGate :: "string \<Rightarrow> state \<Rightarrow> error + state" where
  "freshnessGate currentQuestion s =
     (if totalStep s = 1
      then (case evaluationMetrics s currentQuestion of
              None \<Rightarrow> Inl (TypeError ''Cannot read properties of undefined'')
            | Some checks \<Rightarrow>
                if includesEval checks Freshness
                then Inr (s\<lparr>allowAnswer := False, allowReflect := False\<rparr>)
                else Inr s)
      else Inr s)"

definition rerank :: "env \<Rightarrow> string \<Rightarrow> state \<Rightarrow> state" where
  "rerank E currentQuestion s =
     (let s1 = (if allURLs s \<noteq> []
                then (logCall (CallRankURLs currentQuestion) s)\<lparr>weightedURLs := e_ranked E\<rparr>
                else s)
      in s1\<lparr>allowRead := (allowRead s1 \<and> length (weightedURLs s1) > 0),
            allowSearch := (allowSearch s1 \<and> length (weightedURLs s1) < 50)\<rparr>)"

definition stepSchema :: "params \<Rightarrow> string \<Rightarrow> state \<Rightarrow> zod" where
  "stepSchema P currentQuestion s =
     getAgentSchema (schemaGen P) (allowReflect s) (allowRead s) (allowAnswer s)
       (allowSearch s) (allowCoding s) (Some currentQuestion)"

definition prepareStep :: "params \<Rightarrow> env \<Rightarrow> state \<Rightarrow> error + string \<times> state" where
  "prepareStep P E s =
     (let s1 = beginStep s in
      andThen (currentQuestionOf s1) (\<lambda>currentQuestion.
      andThen (setupMetrics P E currentQuestion s1) (\<lambda>s2.
      andThen (freshnessGate currentQuestion s2) (\<lambda>s3.
      Inr (currentQuestion, rerank E currentQuestion s3)))))"

definition toStepAction :: "agent_object \<Rightarrow> step_action" where
  "toStepAction obj =
     \<lparr>action = o_action obj, think = o_think obj,
      answer = (if o_action obj = ''answer'' then o_answer obj else None),
      references = [], isFinal = False, isAggregated = False, mdAnswer = None,
      searchRequests = (if o_action obj = ''search'' then o_search obj else None),
      URLTargets = (if o_action obj = ''visit''
                    then map_option (map TargetIndex) (o_visit obj) else None),
      questionsToAnswer = (if o_action obj = ''reflect'' then o_reflect obj else None),
      codingIssue = (if o_action obj = ''coding'' then o_coding obj else None)\<rparr>"

definition resetPermissions :: "state \<Rightarrow> state" where
  "resetPermissions s =
     s\<lparr>allowAnswer := True, allowReflect := True, allowRead := True, allowSearch := True,
       allowCoding := True\<rparr>"

text \<open>
  The model's decision. The token tracker is read only by the test of the loop, so the
  usages that the collaborators of a step push to it while the step runs are appended
  here in one go, with the usage of the model call itself. The decision is recorded with
  the action tracker, then the five permission flags are reset.
\<close>

definition decide :: "params \<Rightarrow> env \<Rightarrow> string \<Rightarrow> state \<Rightarrow> error + state" where
  "decide P E currentQuestion s =
     (let s1 = logCall (CallGenerate ''agent'' (stepSchema P currentQuestion s)) s in
      andThen (e_generate E) (\<lambda>obj.
        (let s2 = s1\<lparr>tokenTracker := tokenTracker s1 @ e_usages E,
                     thisStep := toStepAction obj\<rparr>;
             s3 = s2\<lparr>tracked := tracked s2 @ [TrackStep (totalStep s2) (thisStep s2) (gaps s2)]\<rparr>
         in Inr (resetPermissions s3))))"

subsection \<open>The answer action\<close>

definition answerText :: "state \<Rightarrow> string" where
  "answerText s = (case answer (thisStep s) of None \<Rightarrow> [] | Some a \<Rightarrow> a)"

definition defaultEvaluation :: evaluation_response where
  "defaultEvaluation = \<lparr>pass = True, eval_think = '''', eval_type = None, improvement_plan = None\<rparr>"

text \<open>The evaluator is called only when the question has evaluation metrics, with the
  types whose counter is positive; a result that is not an object leaves the default.\<close>

definition evaluateStep ::
  "env \<Rightarrow> string \<Rightarrow> state \<Rightarrow> error + evaluation_response \<times> state" where
  "evaluateStep E currentQuestion s =
     (case evaluationMetrics s currentQuestion of
        None \<Rightarrow> Inl (TypeError ''Cannot read properties of undefined'')
      | Some checks \<Rightarrow>
          if length checks > 0
          then
            (let s1 = logCall (CallEvaluateAnswer currentQuestion
                         (map m_type (filter (\<lambda>e. numEvalsRequired e > 0) checks)))
                        (s\<lparr>tracked := tracked s @ [TrackThink ''eval_first'']\<rparr>)
             in andThen (e_evaluateAnswer E) (\<lambda>r.
                  Inr ((case r of None \<Rightarrow> defaultEvaluation | Some ev \<Rightarrow> ev), s1)))
          else Inr (defaultEvaluation, s))"

text \<open>A failed evaluation lowers the counter of the metrics of the failed type and drops
  the metrics whose counter is no longer positive.\<close>

definition decrementFailed ::
  "evaluation_type option \<Rightarrow> repeat_evaluation list \<Rightarrow> repeat_evaluation list" where
  "decrementFailed failedType checks =
     filter (\<lambda>e. numEvalsRequired e > 0)
       (map (\<lambda>e. if Some (m_type e) = failedType
                  then e\<lparr>numEvalsRequired := numEvalsRequired e - 1\<rparr> else e) checks)"

definition badAnswerKnowledge ::
  "string \<Rightarrow> string \<Rightarrow> evaluation_response \<Rightarrow> error_analysis \<Rightarrow> knowledge_item" where
  "badAnswerKnowledge currentQuestion ans ev analysis =
     \<lparr>k_question =
        [CHR 10] @ ''Why is the following answer bad for the question? Please reflect'' @
        [CHR 10, CHR 10] @ ''<question>'' @ [CHR 10] @ currentQuestion @ [CHR 10] @
        ''</question>'' @ [CHR 10, CHR 10] @ ''<answer>'' @ [CHR 10] @ ans @ [CHR 10] @
        ''</answer>'' @ [CHR 10],
      k_answer =
        [CHR 10] @ eval_think ev @ [CHR 10, CHR 10] @ recap analysis @ [CHR 10, CHR 10] @
        blame analysis @ [CHR 10, CHR 10] @ improvement analysis @ [CHR 10],
      k_type = KQa, k_references = None, k_updated = None, k_sourceCode = None\<rparr>"

definition solvedKnowledge :: "env \<Rightarrow> string \<Rightarrow> string \<Rightarrow> knowledge_item" where
  "solvedKnowledge E currentQuestion ans =
     \<lparr>k_question = currentQuestion, k_answer = ans, k_type = KQa, k_references = None,
      k_updated = Some (e_now E), k_sourceCode = None\<rparr>"

definition failedMainAnswer ::
  "env \<Rightarrow> string \<Rightarrow> evaluation_response \<Rightarrow> state \<Rightarrow> error + control \<times> state" where
  "failedMainAnswer E currentQuestion ev s =
     (case evaluationMetrics s currentQuestion of
        None \<Rightarrow> Inl (TypeError ''Cannot read properties of undefined'')
      | Some checks \<Rightarrow>
          (let remaining = decrementFailed (eval_type ev) checks;
               s1 = s\<lparr>evaluationMetrics := (evaluationMetrics s)(currentQuestion \<mapsto> remaining)\<rparr>;
               s2 = (if eval_type ev = Some Strict \<and> truthy (improvement_plan ev)
                     then s1\<lparr>finalAnswerPIP := finalAnswerPIP s1 @
                               [case improvement_plan ev of None \<Rightarrow> [] | Some p \<Rightarrow> p]\<rparr>
                     else s1)
           in if length remaining = 0
              then Inr (Break, s2\<lparr>thisStep := (thisStep s2)\<lparr>isFinal := False\<rparr>\<rparr>)
              else
                (let s3 = pushDiary (DiaryAnswerBad (step s2) currentQuestion (answerText s2)
                                       (eval_think ev)) s2;
                     s4 = logCall CallAnalyzeSteps s3
                 in andThen (e_analyzeSteps E) (\<lambda>errorAnalysis.
                      Inr (Continue,
                        s4\<lparr>allKnowledge := allKnowledge s4 @
                               [badAnswerKnowledge currentQuestion (answerText s4) ev errorAnalysis],
                           allowAnswer := False, diaryContext := [], step := 0\<rparr>)))))"

definition afterEvaluation ::
  "params \<Rightarrow> env \<Rightarrow> string \<Rightarrow> evaluation_response \<Rightarrow> state \<Rightarrow> error + control \<times> state" where
  "afterEvaluation P E currentQuestion ev s =
     (if trim currentQuestion = question P
      then
        (let s1 = s\<lparr>allowCoding := False\<rparr>
         in if pass ev
            then Inr (Break,
                   (pushDiary (DiaryAnswerGood (step s1) currentQuestion (answerText s1)
                                 (eval_think ev)) s1)
                   \<lparr>thisStep := (thisStep s1)\<lparr>isFinal := True\<rparr>\<rparr>)
            else failedMainAnswer E currentQuestion ev s1)
      else if pass ev
      then Inr (Continue,
             (pushDiary (DiarySubAnswerGood (step s) currentQuestion (answerText s)
                           (eval_think ev)) s)
             \<lparr>allKnowledge := allKnowledge s @ [solvedKnowledge E currentQuestion (answerText s)],
              gaps := splice1 (indexOf (gaps s) currentQuestion) (gaps s)\<rparr>)
      else Inr (Continue, s))"

definition answerAction :: "params \<Rightarrow> env \<Rightarrow> string \<Rightarrow> state \<Rightarrow> error + control \<times> state" where
  "answerAction P E currentQuestion s =
     (if totalStep s = 1 \<and> \<not> noDirectAnswer P
      then Inr (Break, s\<lparr>thisStep := (thisStep s)\<lparr>isFinal := True\<rparr>, trivialQuestion := True\<rparr>)
      else
        (let s1 = updateContext
                    (ContextEntry (totalStep s) (Some currentQuestion) (thisStep s) NoResult) s
         in andThen (evaluateStep E currentQuestion s1) (\<lambda>(ev, s2).
              afterEvaluation P E currentQuestion ev s2)))"

subsection \<open>The reflect action\<close>

definition listOf :: "'a list option \<Rightarrow> 'a list" where
  "listOf xs = (case xs of None \<Rightarrow> [] | Some ys \<Rightarrow> ys)"

definition reflectAction :: "env \<Rightarrow> string \<Rightarrow> state \<Rightarrow> error + control \<times> state" where
  "reflectAction E currentQuestion s =
     (let s1 = logCall (CallDedupQueries (listOf (questionsToAnswer (thisStep s)))
                 (allQuestions s)) s
      in andThen (e_dedupReflect E) (\<lambda>newGapQuestions.
           (let s2 = s1\<lparr>thisStep := (thisStep s1)\<lparr>questionsToAnswer := Some newGapQuestions\<rparr>\<rparr>;
                s3 = (if length newGapQuestions > 0
                      then updateContext
                             (ContextEntry (totalStep s2) None (thisStep s2) NoResult)
                             ((pushDiary (DiaryReflectNew (step s2) currentQuestion newGapQuestions) s2)
                                \<lparr>gaps := gaps s2 @ newGapQuestions,
                                 allQuestions := allQuestions s2 @ newGapQuestions\<rparr>)
                      else updateContext
                             (ContextEntry (totalStep s2) None (thisStep s2)
                                (ResultText ''You have tried all possible questions and found no useful information. You must think out of the box or different angle!!!''))
                             (pushDiary (DiaryReflectNone (step s2) currentQuestion newGapQuestions) s2))
            in Inr (Continue, s3\<lparr>allowReflect := False\<rparr>))))"

subsection \<open>The search action\<close>

definition aggregate :: "step_action \<Rightarrow> sub_response list \<Rightarrow> step_action" where
  "aggregate st responses =
     \<lparr>action = ''answer'', think = think st,
      answer = Some (joinWith [CHR 10, CHR 10] (map sr_answer responses)),
      references = uniq (filter (\<lambda>u. u \<noteq> []) (concat (map sr_references responses))),
      isFinal = True, isAggregated = True,
      mdAnswer = Some (joinWith [CHR 10, CHR 10]
                   (map (\<lambda>r. case sr_mdAnswer r of None \<Rightarrow> [] | Some a \<Rightarrow> a) responses)),
      searchRequests = None, URLTargets = None, questionsToAnswer = None,
      codingIssue = None\<rparr>"

definition planTeam :: "params \<Rightarrow> env \<Rightarrow> state \<Rightarrow> error + control \<times> state" where
  "planTeam P E s =
     (if teamSize P > 1
      then
        (let s1 = logCall CallResearchPlan s
         in andThen (e_researchPlan E) (\<lambda>(first, others).
              if length (first # others) > 1
              then
                andThen (e_subAgents E) (\<lambda>responses.
                  Inr (Break,
                    (logCall (CallSubAgents (first # others)) s1)
                    \<lparr>thisStep := aggregate (thisStep s1) responses,
                     candidateAnswers := filter (\<lambda>a. a \<noteq> [])
                       (List.map_filter sr_mdAnswer responses),
                     visitedURLs := visitedURLs s1 @ concat (map sr_readURLs responses),
                     weightedURLs := concat (map sr_allURLs responses)\<rparr>))
              else Inr (Continue, s1\<lparr>gaps := gaps s1 @ [first]\<rparr>)))
      else Inr (Continue, s))"

definition pickQueries :: "serp_query list \<Rightarrow> string list \<Rightarrow> error + serp_query list" where
  "pickQueries keywordsQueries uniqQOnly =
     (if list_all (\<lambda>q. filter (\<lambda>kq. query_q kq = q) keywordsQueries \<noteq> []) uniqQOnly
      then Inr (map (\<lambda>q. (let matches = filter (\<lambda>kq. query_q kq = q) keywordsQueries
                           in if length matches > 1 then \<lparr>query_q = q, query_tbs = None\<rparr>
                              else hd matches)) uniqQOnly)
      else Inl (TypeError ''Cannot read properties of undefined''))"

definition secondSearch ::
  "params \<Rightarrow> tools \<Rightarrow> env \<Rightarrow> string \<Rightarrow> serp_query list \<Rightarrow> state \<Rightarrow> error + bool \<times> state" where
  "secondSearch P T E currentQuestion keywordsQueries s =
     andThen (executeSearchQueries T (e_search2 E) keywordsQueries (Some (onlyHostnames P))
                (searchProvider P) (logCall (CallExecuteSearch (map query_q keywordsQueries)) s))
       (\<lambda>(out, s1).
          if length (searchedQueries out) > 0
          then Inr (True,
                 updateContext
                   (ContextEntry (totalStep s1) (Some currentQuestion) (thisStep s1) ResultGenerated)
                   ((pushDiary (DiarySearchFound (step s1) currentQuestion
                       (map (\<lambda>kq. query_q (withHostnames (Some (onlyHostnames P)) kq))
                          keywordsQueries)) s1)
                    \<lparr>allKeywords := allKeywords s1 @ searchedQueries out,
                     allKnowledge := allKnowledge s1 @ newKnowledge out\<rparr>))
          else Inr (False, s1))"

definition followUp ::
  "params \<Rightarrow> tools \<Rightarrow> env \<Rightarrow> string \<Rightarrow> state \<Rightarrow> error + control \<times> state" where
  "followUp P T E currentQuestion s =
     (let s1 = logCall CallRewriteQuery s
      in andThen (e_rewriteQuery E) (\<lambda>rewritten.
           (let qOnly = map query_q (filter (\<lambda>kq. query_q kq \<noteq> []) rewritten);
                s2 = logCall (CallDedupQueries qOnly (allKeywords s1)) s1
            in andThen (e_dedupRewrite E) (\<lambda>uniqQOnly.
               andThen (pickQueries rewritten uniqQOnly) (\<lambda>keywordsQueries.
               andThen (if length keywordsQueries > 0
                        then secondSearch P T E currentQuestion keywordsQueries s2
                        else Inr (False, s2)) (\<lambda>(anyResult, s3).
                 (let s4 = (if \<not> anyResult \<or> keywordsQueries = []
                            then updateContext
                                   (ContextEntry (totalStep s3) None (thisStep s3)
                                      (ResultText ''You have tried all possible queries and found no new information. You must think out of the box or different angle!!!''))
                                   (pushDiary (DiarySearchNone (step s3) currentQuestion
                                      (map (\<lambda>kq. query_q (withHostnames (Some (onlyHostnames P)) kq))
                                         keywordsQueries)) s3)
                            else s3)
                  in Inr (Continue, s4\<lparr>allowSearch := False, allowAnswer := False\<rparr>))))))))"

definition searchAction ::
  "params \<Rightarrow> tools \<Rightarrow> env \<Rightarrow> string \<Rightarrow> state \<Rightarrow> error + control \<times> state" where
  "searchAction P T E currentQuestion s =
     (let s1 = logCall (CallDedupQueries (listOf (searchRequests (thisStep s))) []) s
      in andThen (e_dedupSearch E) (\<lambda>requests.
           (let s2 = s1\<lparr>thisStep := (thisStep s1)\<lparr>searchRequests := Some requests\<rparr>\<rparr>;
                s3 = logCall (CallExecuteSearch requests) s2
            in andThen (executeSearchQueries T (e_search1 E)
                          (map (\<lambda>r. \<lparr>query_q = r, query_tbs = None\<rparr>) requests) None
                          (searchProvider P) s3) (\<lambda>(out, s4).
                 (let s5 = s4\<lparr>allKeywords := allKeywords s4 @ searchedQueries out,
                              allKnowledge := allKnowledge s4 @ newKnowledge out\<rparr>
                  in andThen (planTeam P E s5) (\<lambda>(c, s6).
                       case c of
                         Break \<Rightarrow> Inr (Break, s6)
                       | Continue \<Rightarrow> followUp P T E currentQuestion s6))))))"

subsection \<open>The visit and coding actions\<close>

definition resolveTarget :: "tools \<Rightarrow> string list \<Rightarrow> url_target \<Rightarrow> string option" where
  "resolveTarget T urlList t =
     (case t of
        TargetIndex idx \<Rightarrow>
          if 1 \<le> idx \<and> idx \<le> int (length urlList)
          then normalizeUrl T (urlList ! nat (idx - 1))
          else None
      | TargetURL u \<Rightarrow> Some u)"

definition visitAction ::
  "tools \<Rightarrow> env \<Rightarrow> string \<Rightarrow> string list \<Rightarrow> state \<Rightarrow> error + control \<times> state" where
  "visitAction T E currentQuestion urlList s =
     (let targets = filter (\<lambda>u. u \<noteq> [] \<and> u \<notin> set (visitedURLs s))
                      (List.map_filter (resolveTarget T urlList) (listOf (URLTargets (thisStep s))));
          uniqueURLs = take MAX_URLS_PER_STEP (uniq (targets @ weightedURLs s));
          s1 = s\<lparr>thisStep := (thisStep s)\<lparr>URLTargets := Some (map TargetURL uniqueURLs)\<rparr>\<rparr>
      in andThen
           (if length uniqueURLs > 0
            then
              andThen (e_processURLs E) (\<lambda>r.
                (let s2 = (logCall (CallProcessURLs uniqueURLs) s1)
                            \<lparr>allKnowledge := allKnowledge s1 @ pr_newKnowledge r,
                             allURLs := pr_allURLs r,
                             visitedURLs := visitedURLs s1 @ pr_newVisited r,
                             webContents := pr_webContents r\<rparr>
                 in Inr (if pr_success r
                         then updateContext
                                (ContextEntry (totalStep s2) (Some currentQuestion) (thisStep s2)
                                   (ResultURLs (pr_urlResults r)))
                                (pushDiary (DiaryVisitOk (step s2) (pr_urlResults r)) s2)
                         else updateContext
                                (ContextEntry (totalStep s2) None (thisStep s2)
                                   (ResultText ''You have tried all possible URLs and found no new information. You must think out of the box or different angle!!!''))
                                (pushDiary (DiaryVisitFailed (step s2)) s2))))
            else Inr (updateContext
                        (ContextEntry (totalStep s1) None (thisStep s1)
                           (ResultText ''You have visited all possible URLs and found no new information. You must think out of the box or different angle!!!''))
                        (pushDiary (DiaryVisitNone (step s1)) s1)))
           (\<lambda>s3. Inr (Continue, s3\<lparr>allowRead := False\<rparr>)))"

definition codingKnowledge :: "env \<Rightarrow> string \<Rightarrow> string \<Rightarrow> string \<Rightarrow> knowledge_item" where
  "codingKnowledge E issue code output =
     \<lparr>k_question = ''What is the solution to the coding issue: '' @ issue @ ''?'',
      k_answer = output, k_type = KCoding, k_references = None, k_updated = Some (e_now E),
      k_sourceCode = Some code\<rparr>"

definition codingAction :: "env \<Rightarrow> state \<Rightarrow> error + control \<times> state" where
  "codingAction E s =
     (let issue = (case codingIssue (thisStep s) of None \<Rightarrow> [] | Some i \<Rightarrow> i);
          s1 = logCall (CallSandbox issue) s;
          s2 = (case e_sandbox E of
                  Inr (code, output) \<Rightarrow>
                    updateContext
                      (ContextEntry (totalStep s1) None (thisStep s1) (ResultSolution code output))
                      ((pushDiary (DiaryCodingOk (step s1) issue) s1)
                         \<lparr>allKnowledge := allKnowledge s1 @ [codingKnowledge E issue code output]\<rparr>)
                | Inl err \<Rightarrow>
                    updateContext
                      (ContextEntry (totalStep s1) None (thisStep s1)
                         (ResultText ''You have tried all possible solutions and found no new information. You must think out of the box or different angle!!!''))
                      (pushDiary (DiaryCodingFailed (step s1) issue) s1))
      in Inr (Continue, s2\<lparr>allowCoding := False\<rparr>))"

subsection \<open>The loop, the forced step and the session\<close>

definition dispatch ::
  "params \<Rightarrow> tools \<Rightarrow> env \<Rightarrow> string \<Rightarrow> state \<Rightarrow> error + control \<times> state" where
  "dispatch P T E currentQuestion s =
     (if action (thisStep s) = ''answer'' \<and> truthy (answer (thisStep s))
      then answerAction P E currentQuestion s
      else if action (thisStep s) = ''reflect'' \<and> questionsToAnswer (thisStep s) \<noteq> None
      then reflectAction E currentQuestion s
      else if action (thisStep s) = ''search'' \<and> searchRequests (thisStep s) \<noteq> None
      then searchAction P T E currentQuestion s
      else if action (thisStep s) = ''visit'' \<and> nonEmptyList (URLTargets (thisStep s)) \<and>
              length (e_urlList E) > 0
      then visitAction T E currentQuestion (e_urlList E) s
      else if action (thisStep s) = ''coding'' \<and> truthy (codingIssue (thisStep s))
      then codingAction E s
      else Inr (Continue, s))"

definition loopBody :: "params \<Rightarrow> tools \<Rightarrow> env \<Rightarrow> state \<Rightarrow> error + control \<times> state" where
  "loopBody P T E s =
     andThen (prepareStep P E s) (\<lambda>(currentQuestion, s1).
     andThen (decide P E currentQuestion s1) (\<lambda>s2.
     andThen (dispatch P T E currentQuestion s2) (\<lambda>(c, s3).
       Inr (case c of
              Break \<Rightarrow> (Break, s3)
            | Continue \<Rightarrow> (Continue, logCall (CallStoreContext (totalStep s3)) s3)))))"

text \<open>
  The \<open>while\<close> loop of \<open>getResponse\<close>: its test compares the tokens used so far with
  \<open>regularBudget\<close>, 0.85 times the token budget, taken here in exact arithmetic. The loop
  may run for any number of steps, so it is given fuel; \<open>None\<close> is a run that has not
  ended within the fuel. The environment of a step is chosen by the number of the step.
\<close>

definition withinRegularBudget :: "params \<Rightarrow> state \<Rightarrow> bool" where
  "withinRegularBudget P s = (real (getTotalUsage (tokenTracker s)) < regularBudget P)"

fun runLoop ::
  "nat \<Rightarrow> params \<Rightarrow> tools \<Rightarrow> (nat \<Rightarrow> env) \<Rightarrow> state \<Rightarrow> (error + state) option" where
  "runLoop 0 P T envs s = None"
| "runLoop (Suc fuel) P T envs s =
     (if withinRegularBudget P s
      then (case loopBody P T (envs (Suc (totalStep s))) s of
              Inl err \<Rightarrow> Some (Inl err)
            | Inr (Break, s') \<Rightarrow> Some (Inr s')
            | Inr (Continue, s') \<Rightarrow> runLoop fuel P T envs s')
      else Some (Inr s))"

text \<open>
  After the loop: the forced step (beast mode) when the last step is not final, with the
  schema whose only action is \<open>answer\<close>. The reading of the question from the messages
  before the loop, and the formatting of the final answer and of its references after the
  forced step, are left out: \<open>question\<close> is the question the loop works on, and the
  result is the state in which the last step was decided.
\<close>

definition beastMode :: "params \<Rightarrow> env \<Rightarrow> state \<Rightarrow> error + state" where
  "beastMode P E s =
     (let s1 = s\<lparr>step := step s + 1, totalStep := totalStep s + 1\<rparr>;
          s2 = logCall (CallGenerate ''agentBeastMode''
                 (getAgentSchema (schemaGen P) False False True False False (Some (question P)))) s1
      in andThen (e_generate E) (\<lambda>obj.
           (let s3 = s2\<lparr>tokenTracker := tokenTracker s2 @ e_usages E,
                        thisStep := (toStepAction obj)\<lparr>isFinal := True\<rparr>\<rparr>
            in Inr (s3\<lparr>tracked := tracked s3 @
                        [TrackStep (totalStep s3) (thisStep s3) (gaps s3)]\<rparr>))))"

definition afterLoop :: "params \<Rightarrow> (nat \<Rightarrow> env) \<Rightarrow> state \<Rightarrow> error + state" where
  "afterLoop P envs s =
     (if \<not> isFinal (thisStep s) then beastMode P (envs (Suc (totalStep s))) s else Inr s)"

definition getResponse ::
  "nat \<Rightarrow> params \<Rightarrow> tools \<Rightarrow> (nat \<Rightarrow> env) \<Rightarrow> token_tracker \<Rightarrow> url_registry \<Rightarrow>
     (error + state) option" where
  "getResponse fuel P T envs tracker urls =
     (case runLoop fuel P T envs (initialState P tracker urls) of
        None \<Rightarrow> None
      | Some (Inl err) \<Rightarrow> Some (Inl err)
      | Some (Inr s) \<Rightarrow> Some (afterLoop P envs s))"

subsection \<open>What the search leaves untouched\<close>

lemma recordSnippet_frame:
  "\<exists>u w. recordSnippet T st r = st\<lparr>allURLs := u, webContents := w\<rparr>"
  by (auto simp add: recordSnippet_def)

lemma foldl_recordSnippet_frame:
  "\<exists>u w. foldl (recordSnippet T) st rs = st\<lparr>allURLs := u, webContents := w\<rparr>"
proof (induction rs arbitrary: st)
  case Nil
  have "st = st\<lparr>allURLs := allURLs st, webContents := webContents st\<rparr>" by simp
  then show ?case by (metis foldl_Nil)
next
  case (Cons r rs)
  obtain u w where a: "recordSnippet T st r = st\<lparr>allURLs := u, webContents := w\<rparr>"
    using recordSnippet_frame by blast
  obtain u' w' where "foldl (recordSnippet T) (recordSnippet T st r) rs =
      (recordSnippet T st r)\<lparr>allURLs := u', webContents := w'\<rparr>"
    using Cons.IH by blast
  with a have "foldl (recordSnippet T) st (r # rs) = st\<lparr>allURLs := u', webContents := w'\<rparr>"
    by simp
  then show ?case by blast
qed

lemma searchLoop_frame:
  fixes st :: "'a search_state_scheme"
  shows "searchLoop T orc oh sp i qs out st = Inr (out', st') \<Longrightarrow>
     \<exists>u w t. st' = st\<lparr>allURLs := u, webContents := w, tracked := t\<rparr>"
proof (induction qs arbitrary: i out st)
  case Nil
  then have "st' = st\<lparr>allURLs := allURLs st, webContents := webContents st, tracked := tracked st\<rparr>"
    by simp
  then show ?case by blast
next
  case (Cons query rest)
  show ?case
  proof (cases "runSearch T orc i sp (withHostnames oh query)")
    case (Inl err)
    with Cons.prems have "searchLoop T orc oh sp (Suc i) rest out st = Inr (out', st')"
      by (simp add: Let_def split: if_splits)
    then show ?thesis by (rule Cons.IH)
  next
    case (Inr results)
    let ?mr = "List.map_filter (toSnippet T) results"
    obtain u w where f: "foldl (recordSnippet T) st ?mr = st\<lparr>allURLs := u, webContents := w\<rparr>"
      using foldl_recordSnippet_frame by blast
    let ?st2 = "st\<lparr>allURLs := u, webContents := w, tracked := tracked st @ [TrackSearch (query_q query)]\<rparr>"
    from Cons.prems Inr f obtain out3 where
      "searchLoop T orc oh sp (Suc i) rest out3 ?st2 = Inr (out', st')"
      by (simp add: Let_def)
    from Cons.IH [OF this] obtain u' w' t' where
      "st' = ?st2\<lparr>allURLs := u', webContents := w', tracked := t'\<rparr>" by blast
    then have "st' = st\<lparr>allURLs := u', webContents := w', tracked := t'\<rparr>" by simp
    then show ?thesis by blast
  qed
qed

lemma executeSearchQueries_frame:
  fixes st :: "'a search_state_scheme"
  assumes "executeSearchQueries T orc qs oh sp st = Inr (out, st')"
  shows "\<exists>u w t. st' = st\<lparr>allURLs := u, webContents := w, tracked := t\<rparr>"
proof -
  let ?st0 = "st\<lparr>tracked := tracked st @ [TrackThink ''search_for'']\<rparr>"
  from assms obtain st1 where l: "searchLoop T orc oh sp 0 qs
      \<lparr>newKnowledge = [], searchedQueries = []\<rparr> ?st0 = Inr (out, st1)"
    and s: "st' = st1 \<or> st' = st1\<lparr>tracked := tracked st1 @ [TrackThink ''hostnames_no_results'']\<rparr>"
    by (auto simp add: executeSearchQueries_def Let_def split: sum.splits prod.splits if_splits)
  from searchLoop_frame [OF l] obtain u w t where
    "st1 = ?st0\<lparr>allURLs := u, webContents := w, tracked := t\<rparr>" by blast
  then have st1: "st1 = st\<lparr>allURLs := u, webContents := w, tracked := t\<rparr>" by simp
  from s show ?thesis
  proof
    assume "st' = st1"
    with st1 show ?thesis by blast
  next
    assume "st' = st1\<lparr>tracked := tracked st1 @ [TrackThink ''hostnames_no_results'']\<rparr>"
    with st1 have "st' = st\<lparr>allURLs := u, webContents := w,
        tracked := t @ [TrackThink ''hostnames_no_results'']\<rparr>" by simp
    then show ?thesis by blast
  qed
qed

subsection \<open>Permission flags after a step\<close>

text \<open>The five permission flags, in the order answer, reflect, read, search, coding.\<close>

definition permissions :: "state \<Rightarrow> bool \<times> bool \<times> bool \<times> bool \<times> bool" where
  "permissions s = (allowAnswer s, allowReflect s, allowRead s, allowSearch s, allowCoding s)"

lemma permissions_frame [simp]:
  "permissions (s\<lparr>allURLs := u\<rparr>) = permissions s"
  "permissions (s\<lparr>webContents := w\<rparr>) = permissions s"
  "permissions (s\<lparr>tracked := t\<rparr>) = permissions s"
  "permissions (s\<lparr>callLog := cl\<rparr>) = permissions s"
  "permissions (s\<lparr>allContext := ac\<rparr>) = permissions s"
  "permissions (s\<lparr>diaryContext := d\<rparr>) = permissions s"
  "permissions (s\<lparr>allKnowledge := k\<rparr>) = permissions s"
  "permissions (s\<lparr>allKeywords := kw\<rparr>) = permissions s"
  "permissions (s\<lparr>allQuestions := aq\<rparr>) = permissions s"
  "permissions (s\<lparr>gaps := g\<rparr>) = permissions s"
  "permissions (s\<lparr>thisStep := ts\<rparr>) = permissions s"
  "permissions (s\<lparr>visitedURLs := v\<rparr>) = permissions s"
  "permissions (s\<lparr>tokenTracker := tt\<rparr>) = permissions s"
  "permissions (s\<lparr>step := n\<rparr>) = permissions s"
  by (simp_all add: permissions_def)

lemma permissions_helpers [simp]:
  "permissions (logCall c s) = permissions s"
  "permissions (updateContext entry s) = permissions s"
  "permissions (pushDiary d s) = permissions s"
  by (simp_all add: logCall_def updateContext_def pushDiary_def)

lemma permissions_resetPermissions [simp]:
  "permissions (resetPermissions s) = (True, True, True, True, True)"
  by (simp add: permissions_def resetPermissions_def)

lemma decide_permissions:
  "decide P E cq s = Inr s' \<Longrightarrow> permissions s' = (True, True, True, True, True)"
  by (cases "e_generate E") (auto simp add: decide_def Let_def)

lemma reflectAction_permissions:
  assumes "reflectAction E cq s = Inr (c, s')"
  shows "c = Continue \<and>
     permissions s' = (allowAnswer s, False, allowRead s, allowSearch s, allowCoding s)"
proof (cases "e_dedupReflect E")
  case (Inl err)
  with assms show ?thesis by (simp add: reflectAction_def Let_def)
next
  case (Inr qs)
  with assms show ?thesis
    by (auto simp add: reflectAction_def Let_def permissions_def logCall_def updateContext_def
        pushDiary_def split: if_splits)
qed

lemma codingAction_permissions:
  assumes "codingAction E s = Inr (c, s')"
  shows "c = Continue \<and>
     permissions s' = (allowAnswer s, allowReflect s, allowRead s, allowSearch s, False)"
  using assms
  by (auto simp add: codingAction_def Let_def permissions_def logCall_def updateContext_def
      pushDiary_def split: sum.splits prod.splits)

lemma visitAction_permissions:
  assumes "visitAction T E cq urlList s = Inr (c, s')"
  shows "c = Continue \<and>
     permissions s' = (allowAnswer s, allowReflect s, False, allowSearch s, allowCoding s)"
  using assms
  by (auto simp add: visitAction_def Let_def permissions_def logCall_def updateContext_def
      pushDiary_def andThen_def split: sum.splits if_splits)

lemma secondSearch_permissions:
  assumes "secondSearch P T E cq kqs s = Inr (b, s')"
  shows "permissions s' = permissions s"
proof -
  let ?s0 = "logCall (CallExecuteSearch (map query_q kqs)) s"
  from assms obtain out s1 where
    e: "executeSearchQueries T (e_search2 E) kqs (Some (onlyHostnames P)) (searchProvider P) ?s0 =
        Inr (out, s1)"
    by (auto simp add: secondSearch_def andThen_def split: sum.splits)
  from executeSearchQueries_frame [OF e] obtain u w t where
    s1: "s1 = ?s0\<lparr>allURLs := u, webContents := w, tracked := t\<rparr>" by blast
  then have p: "permissions s1 = permissions s" by simp
  from assms e have "s' = s1 \<or> (\<exists>ce d kw kn. s' = updateContext ce ((pushDiary d s1)
      \<lparr>allKeywords := kw, allKnowledge := kn\<rparr>))"
    by (auto simp add: secondSearch_def split: if_splits)
  with p show ?thesis by auto
qed

lemma followUp_permissions:
  assumes "followUp P T E cq s = Inr (c, s')"
  shows "c = Continue \<and>
     permissions s' = (False, allowReflect s, allowRead s, False, allowCoding s)"
proof -
  from assms obtain rewritten where r: "e_rewriteQuery E = Inr rewritten"
    by (cases "e_rewriteQuery E") (auto simp add: followUp_def Let_def)
  from assms r obtain uniqQOnly where d: "e_dedupRewrite E = Inr uniqQOnly"
    by (cases "e_dedupRewrite E") (auto simp add: followUp_def Let_def)
  from assms r d obtain kqs where k: "pickQueries rewritten uniqQOnly = Inr kqs"
    by (cases "pickQueries rewritten uniqQOnly") (auto simp add: followUp_def Let_def)
  let ?s2 = "logCall (CallDedupQueries (map query_q (filter (\<lambda>kq. query_q kq \<noteq> []) rewritten))
                (allKeywords (logCall CallRewriteQuery s))) (logCall CallRewriteQuery s)"
  let ?r = "if length kqs > 0 then secondSearch P T E cq kqs ?s2 else Inr (False, ?s2)"
  from assms r d k obtain b s3 where x: "?r = Inr (b, s3)"
    by (cases ?r) (auto simp add: followUp_def Let_def)
  then have p3: "permissions s3 = permissions s"
    using secondSearch_permissions by (auto split: if_splits)
  from assms r d k x have "c = Continue \<and> \<not> allowSearch s' \<and> \<not> allowAnswer s' \<and>
      allowReflect s' = allowReflect s3 \<and> allowRead s' = allowRead s3 \<and>
      allowCoding s' = allowCoding s3"
    by (auto simp add: followUp_def Let_def updateContext_def pushDiary_def split: if_splits)
  with p3 show ?thesis by (simp add: permissions_def)
qed

lemma planTeam_permissions:
  assumes "planTeam P E s = Inr (Continue, s')"
  shows "permissions s' = permissions s"
  using assms
  by (auto simp add: planTeam_def Let_def andThen_def split: if_splits sum.splits prod.splits)

lemma searchAction_permissions:
  assumes "searchAction P T E cq s = Inr (Continue, s')"
  shows "permissions s' = (False, allowReflect s, allowRead s, False, allowCoding s)"
proof -
  from assms obtain requests where r: "e_dedupSearch E = Inr requests"
    by (cases "e_dedupSearch E") (auto simp add: searchAction_def Let_def)
  let ?s1 = "logCall (CallDedupQueries (listOf (searchRequests (thisStep s))) []) s"
  let ?s3 = "logCall (CallExecuteSearch requests)
               (?s1\<lparr>thisStep := (thisStep ?s1)\<lparr>searchRequests := Some requests\<rparr>\<rparr>)"
  let ?x = "executeSearchQueries T (e_search1 E)
              (map (\<lambda>r. \<lparr>query_q = r, query_tbs = None\<rparr>) requests) None (searchProvider P) ?s3"
  from assms r obtain out s4 where e: "?x = Inr (out, s4)"
    by (cases ?x) (auto simp add: searchAction_def Let_def)
  from executeSearchQueries_frame [OF e] obtain u w t where
    "s4 = ?s3\<lparr>allURLs := u, webContents := w, tracked := t\<rparr>" by blast
  then have p4: "permissions s4 = permissions s" by simp
  let ?s5 = "s4\<lparr>allKeywords := allKeywords s4 @ searchedQueries out,
               allKnowledge := allKnowledge s4 @ newKnowledge out\<rparr>"
  from assms r e obtain c6 s6 where pl: "planTeam P E ?s5 = Inr (c6, s6)"
    by (cases "planTeam P E ?s5") (auto simp add: searchAction_def Let_def)
  from assms r e pl have c6: "c6 = Continue" and f: "followUp P T E cq s6 = Inr (Continue, s')"
    by (auto simp add: searchAction_def Let_def split: control.splits)
  from pl c6 have "permissions s6 = permissions ?s5"
    using planTeam_permissions by blast
  with p4 have p6: "permissions s6 = permissions s" by simp
  from followUp_permissions [OF f] p6 show ?thesis
    by (simp add: permissions_def)
qed

lemma loopBody_Continue:
  assumes "loopBody P T E s = Inr (Continue, s')"
  shows "\<exists>cq s1 s2 s3. prepareStep P E s = Inr (cq, s1) \<and> decide P E cq s1 = Inr s2 \<and>
     dispatch P T E cq s2 = Inr (Continue, s3) \<and>
     s' = logCall (CallStoreContext (totalStep s3)) s3"
  using assms
  by (auto simp add: loopBody_def andThen_def split: sum.splits prod.splits control.splits)

lemma decide_result:
  assumes "decide P E cq s1 = Inr s2" and "e_generate E = Inr obj"
  shows "thisStep s2 = toStepAction obj \<and>
     permissions s2 = (True, True, True, True, True) \<and>
     tracked s2 = tracked s1 @ [TrackStep (totalStep s1) (toStepAction obj) (gaps s1)] \<and>
     callLog s2 = callLog s1 @ [CallGenerate ''agent'' (stepSchema P cq s1)] \<and>
     totalStep s2 = totalStep s1 \<and> gaps s2 = gaps s1"
  using assms
  by (auto simp add: decide_def Let_def logCall_def resetPermissions_def permissions_def)

text \<open>
  C4. In every loop iteration that goes on to the next one, the model's decision is
  recorded with the action tracker and all five permission flags (answer, reflect, read,
  search, coding) are reset to true before the step is dispatched; after the step, a
  search has left \<open>allowSearch\<close> and \<open>allowAnswer\<close> false, a visit \<open>allowRead\<close>, a
  reflection \<open>allowReflect\<close> and a coding step \<open>allowCoding\<close>, every other flag being true.
\<close>

theorem loopBody_permission_cooldown:
  assumes "loopBody P T E s = Inr (Continue, s')" and "e_generate E = Inr obj"
  shows
  "(\<exists>cq s1 s2 s3. prepareStep P E s = Inr (cq, s1) \<and> decide P E cq s1 = Inr s2 \<and>
      tracked s2 = tracked s1 @ [TrackStep (totalStep s1) (toStepAction obj) (gaps s1)] \<and>
      permissions s2 = (True, True, True, True, True) \<and>
      dispatch P T E cq s2 = Inr (Continue, s3) \<and> permissions s' = permissions s3) \<and>
   (o_action obj = ''search'' \<and> o_search obj \<noteq> None \<longrightarrow>
      permissions s' = (False, True, True, False, True)) \<and>
   (o_action obj = ''visit'' \<and> nonEmptyList (o_visit obj) \<and> e_urlList E \<noteq> [] \<longrightarrow>
      permissions s' = (True, True, False, True, True)) \<and>
   (o_action obj = ''reflect'' \<and> o_reflect obj \<noteq> None \<longrightarrow>
      permissions s' = (True, False, True, True, True)) \<and>
   (o_action obj = ''coding'' \<and> truthy (o_coding obj) \<longrightarrow>
      permissions s' = (True, True, True, True, False))"
proof -
  from loopBody_Continue [OF assms(1)] obtain cq s1 s2 s3 where
    p: "prepareStep P E s = Inr (cq, s1)" and d: "decide P E cq s1 = Inr s2"
    and x: "dispatch P T E cq s2 = Inr (Continue, s3)"
    and s': "s' = logCall (CallStoreContext (totalStep s3)) s3" by blast
  note r = decide_result [OF d assms(2)]
  from r have ts: "thisStep s2 = toStepAction obj"
    and all: "permissions s2 = (True, True, True, True, True)" by simp_all
  from all have f: "allowAnswer s2" "allowReflect s2" "allowRead s2" "allowSearch s2" "allowCoding s2"
    by (simp_all add: permissions_def)
  have ps: "permissions s' = permissions s3" using s' by simp
  have a: "\<exists>cq s1 s2 s3. prepareStep P E s = Inr (cq, s1) \<and> decide P E cq s1 = Inr s2 \<and>
      tracked s2 = tracked s1 @ [TrackStep (totalStep s1) (toStepAction obj) (gaps s1)] \<and>
      permissions s2 = (True, True, True, True, True) \<and>
      dispatch P T E cq s2 = Inr (Continue, s3) \<and> permissions s' = permissions s3"
    using p d r x ps by blast
  have b: "o_action obj = ''search'' \<and> o_search obj \<noteq> None \<longrightarrow>
      permissions s' = (False, True, True, False, True)"
  proof
    assume h: "o_action obj = ''search'' \<and> o_search obj \<noteq> None"
    then have "dispatch P T E cq s2 = searchAction P T E cq s2"
      using ts by (simp add: dispatch_def toStepAction_def)
    with x have "searchAction P T E cq s2 = Inr (Continue, s3)" by simp
    from searchAction_permissions [OF this] f ps
    show "permissions s' = (False, True, True, False, True)" by simp
  qed
  have c: "o_action obj = ''visit'' \<and> nonEmptyList (o_visit obj) \<and> e_urlList E \<noteq> [] \<longrightarrow>
      permissions s' = (True, True, False, True, True)"
  proof
    assume h: "o_action obj = ''visit'' \<and> nonEmptyList (o_visit obj) \<and> e_urlList E \<noteq> []"
    then have "nonEmptyList (URLTargets (thisStep s2))"
      using ts by (auto simp add: toStepAction_def nonEmptyList_def split: option.splits)
    with h have "dispatch P T E cq s2 = visitAction T E cq (e_urlList E) s2"
      using ts by (simp add: dispatch_def toStepAction_def)
    with x have "visitAction T E cq (e_urlList E) s2 = Inr (Continue, s3)" by simp
    from visitAction_permissions [OF this] f ps
    show "permissions s' = (True, True, False, True, True)" by simp
  qed
  have d': "o_action obj = ''reflect'' \<and> o_reflect obj \<noteq> None \<longrightarrow>
      permissions s' = (True, False, True, True, True)"
  proof
    assume h: "o_action obj = ''reflect'' \<and> o_reflect obj \<noteq> None"
    then have "dispatch P T E cq s2 = reflectAction E cq s2"
      using ts by (simp add: dispatch_def toStepAction_def)
    with x have "reflectAction E cq s2 = Inr (Continue, s3)" by simp
    from reflectAction_permissions [OF this] f ps
    show "permissions s' = (True, False, True, True, True)" by simp
  qed
  have e: "o_action obj = ''coding'' \<and> truthy (o_coding obj) \<longrightarrow>
      permissions s' = (True, True, True, True, False)"
  proof
    assume h: "o_action obj = ''coding'' \<and> truthy (o_coding obj)"
    then have "dispatch P T E cq s2 = codingAction E s2"
      using ts by (simp add: dispatch_def toStepAction_def)
    with x have "codingAction E s2 = Inr (Continue, s3)" by simp
    from codingAction_permissions [OF this] f ps
    show "permissions s' = (True, True, True, True, False)" by simp
  qed
  show ?thesis
    by (intro conjI a b c d' e)
qed

text \<open>A concrete session: a question, collaborators that find nothing, and the model's
  possible first decisions.\<close>

definition P1 :: params where
  "P1 = \<lparr>question = ''why is the sky blue'', tokenBudget = 1000000, maxBadAttempts = 2,
         noDirectAnswer = False, onlyHostnames = [], searchProvider = None, teamSize = 1,
         schemaGen = sg0\<rparr>"

definition orcNothing :: search_oracle where
  "orcNothing = \<lparr>searchCall = (\<lambda>i p query. Inr []), serpCluster = (\<lambda>i rs. Inr [])\<rparr>"

definition objSearch :: agent_object where
  "objSearch = \<lparr>o_think = ''look it up'', o_action = ''search'',
                o_search = Some [''sky color''], o_coding = None, o_answer = None,
                o_reflect = None, o_visit = None\<rparr>"

definition objReflect :: agent_object where
  "objReflect = \<lparr>o_think = ''what is missing'', o_action = ''reflect'',
                 o_search = None, o_coding = None, o_answer = None,
                 o_reflect = Some [''what scatters light''], o_visit = None\<rparr>"

definition objCoding :: agent_object where
  "objCoding = \<lparr>o_think = ''compute it'', o_action = ''coding'',
                o_search = None, o_coding = Some ''count the wavelengths'', o_answer = None,
                o_reflect = None, o_visit = None\<rparr>"

definition objVisit :: agent_object where
  "objVisit = \<lparr>o_think = ''read the page'', o_action = ''visit'',
               o_search = None, o_coding = None, o_answer = None,
               o_reflect = None, o_visit = Some [1]\<rparr>"

definition objAnswer :: agent_object where
  "objAnswer = \<lparr>o_think = ''known'', o_action = ''answer'',
                o_search = None, o_coding = None, o_answer = Some ''Rayleigh scattering'',
                o_reflect = None, o_visit = None\<rparr>"

definition E0 :: env where
  "E0 = \<lparr>e_evaluateQuestion = Inr [Definitive],
         e_ranked = [],
         e_urlList = [],
         e_generate = Inr objSearch,
         e_usages = [(''agent'', 100)],
         e_evaluateAnswer = Inr None,
         e_analyzeSteps = Inr \<lparr>recap = ''searched once'', blame = ''too shallow'',
                                 improvement = ''read more''\<rparr>,
         e_now = ''2025-01-01'',
         e_dedupReflect = Inr [''what scatters light''],
         e_dedupSearch = Inr [''sky color''],
         e_search1 = orcNothing,
         e_researchPlan = Inl (Error ''no plan''),
         e_subAgents = Inr [],
         e_rewriteQuery = Inr [],
         e_dedupRewrite = Inr [],
         e_search2 = orcNothing,
         e_processURLs = Inr \<lparr>pr_urlResults = [''https://a.example/''], pr_success = True,
                                pr_newKnowledge = [], pr_allURLs = [],
                                pr_newVisited = [''https://a.example/''],
                                pr_webContents = Map.empty\<rparr>,
         e_sandbox = Inl (Error ''no sandbox'')\<rparr>"

definition s0 :: state where
  "s0 = initialState P1 [] []"

lemmas example_defs =
  loopBody_def prepareStep_def beginStep_def currentQuestionOf_def setupMetrics_def
  freshnessGate_def rerank_def decide_def dispatch_def
  s0_def initialState_def P1_def E0_def T0_def
  toStepAction_def resetPermissions_def logCall_def includesEval_def trim_def isSpace_def
  nonEmptyList_def listOf_def updateContext_def pushDiary_def truthy_def
  stepSchema_def Let_def initialStep_def

lemma loopBody_search_example:
  "\<exists>s'. loopBody P1 T0 E0 s0 = Inr (Continue, s')"
  by (simp add: example_defs searchAction_def followUp_def planTeam_def pickQueries_def
      executeSearchQueries_def runSearch_def objSearch_def orcNothing_def providerOf_def)

lemma loopBody_reflect_example:
  "\<exists>s'. loopBody P1 T0 (E0\<lparr>e_generate := Inr objReflect\<rparr>) s0 = Inr (Continue, s')"
  by (simp add: example_defs reflectAction_def objReflect_def)

lemma loopBody_coding_example:
  "\<exists>s'. loopBody P1 T0 (E0\<lparr>e_generate := Inr objCoding\<rparr>) s0 = Inr (Continue, s')"
  by (simp add: example_defs codingAction_def objCoding_def)

lemma loopBody_visit_example:
  "\<exists>s'. loopBody P1 T0 (E0\<lparr>e_generate := Inr objVisit, e_urlList := [''https://a.example/'']\<rparr>) s0 =
     Inr (Continue, s')"
  by (simp add: example_defs visitAction_def objVisit_def resolveTarget_def
      MAX_URLS_PER_STEP_def List.map_filter_def)

theorem loopBody_permission_cooldown_witness:
  "(\<exists>s'. loopBody P1 T0 E0 s0 = Inr (Continue, s') \<and>
      permissions s' = (False, True, True, False, True)) \<and>
   (\<exists>s'. loopBody P1 T0 (E0\<lparr>e_generate := Inr objReflect\<rparr>) s0 = Inr (Continue, s') \<and>
      permissions s' = (True, False, True, True, True)) \<and>
   (\<exists>s'. loopBody P1 T0 (E0\<lparr>e_generate := Inr objCoding\<rparr>) s0 = Inr (Continue, s') \<and>
      permissions s' = (True, True, True, True, False)) \<and>
   (\<exists>s'. loopBody P1 T0 (E0\<lparr>e_generate := Inr objVisit, e_urlList := [''https://a.example/'']\<rparr>) s0 =
        Inr (Continue, s') \<and>
      permissions s' = (True, True, False, True, True))"
proof -
  note C2 = conjunct2
  have a: "\<exists>s'. loopBody P1 T0 E0 s0 = Inr (Continue, s') \<and>
      permissions s' = (False, True, True, False, True)"
  proof -
    obtain s' where l: "loopBody P1 T0 E0 s0 = Inr (Continue, s')"
      using loopBody_search_example by blast
    have g: "e_generate E0 = Inr objSearch" by (simp add: E0_def)
    have h: "o_action objSearch = ''search'' \<and> o_search objSearch \<noteq> None"
      by (simp add: objSearch_def)
    from loopBody_permission_cooldown [OF l g, THEN C2, THEN conjunct1, rule_format, OF h] l
    show ?thesis by blast
  qed
  have b: "\<exists>s'. loopBody P1 T0 (E0\<lparr>e_generate := Inr objReflect\<rparr>) s0 = Inr (Continue, s') \<and>
      permissions s' = (True, False, True, True, True)"
  proof -
    obtain s' where l: "loopBody P1 T0 (E0\<lparr>e_generate := Inr objReflect\<rparr>) s0 = Inr (Continue, s')"
      using loopBody_reflect_example by blast
    have g: "e_generate (E0\<lparr>e_generate := Inr objReflect\<rparr>) = Inr objReflect" by simp
    have h: "o_action objReflect = ''reflect'' \<and> o_reflect objReflect \<noteq> None"
      by (simp add: objReflect_def)
    from loopBody_permission_cooldown [OF l g, THEN C2, THEN C2, THEN C2, THEN conjunct1,
        rule_format, OF h] l
    show ?thesis by blast
  qed
  have c: "\<exists>s'. loopBody P1 T0 (E0\<lparr>e_generate := Inr objCoding\<rparr>) s0 = Inr (Continue, s') \<and>
      permissions s' = (True, True, True, True, False)"
  proof -
    obtain s' where l: "loopBody P1 T0 (E0\<lparr>e_generate := Inr objCoding\<rparr>) s0 = Inr (Continue, s')"
      using loopBody_coding_example by blast
    have g: "e_generate (E0\<lparr>e_generate := Inr objCoding\<rparr>) = Inr objCoding" by simp
    have h: "o_action objCoding = ''coding'' \<and> truthy (o_coding objCoding)"
      by (simp add: objCoding_def truthy_def)
    from loopBody_permission_cooldown [OF l g, THEN C2, THEN C2, THEN C2, THEN C2,
        rule_format, OF h] l
    show ?thesis by blast
  qed
  have d: "\<exists>s'. loopBody P1 T0 (E0\<lparr>e_generate := Inr objVisit, e_urlList := [''https://a.example/'']\<rparr>) s0 =
        Inr (Continue, s') \<and>
      permissions s' = (True, True, False, True, True)"
  proof -
    let ?E = "E0\<lparr>e_generate := Inr objVisit, e_urlList := [''https://a.example/'']\<rparr>"
    obtain s' where l: "loopBody P1 T0 ?E s0 = Inr (Continue, s')"
      using loopBody_visit_example by blast
    have g: "e_generate ?E = Inr objVisit" by simp
    have h: "o_action objVisit = ''visit'' \<and> nonEmptyList (o_visit objVisit) \<and> e_urlList ?E \<noteq> []"
      by (simp add: objVisit_def nonEmptyList_def)
    from loopBody_permission_cooldown [OF l g, THEN C2, THEN C2, THEN conjunct1,
        rule_format, OF h] l
    show ?thesis by blast
  qed
  show ?thesis
    by (intro conjI a b c d)
qed

subsection \<open>The permissions a step starts with\<close>

lemma setupMetrics_frame:
  assumes "setupMetrics P E cq s = Inr s2"
  shows "gaps s2 = gaps s \<and> totalStep s2 = totalStep s \<and> permissions s2 = permissions s"
  using assms
  by (auto simp add: setupMetrics_def andThen_def logCall_def permissions_def
      split: if_splits sum.splits)

lemma freshnessGate_frame:
  assumes "freshnessGate cq s = Inr s3"
  shows "gaps s3 = gaps s \<and> totalStep s3 = totalStep s \<and>
     evaluationMetrics s3 = evaluationMetrics s \<and> callLog s3 = callLog s \<and>
     allowRead s3 = allowRead s \<and> allowSearch s3 = allowSearch s \<and>
     allowCoding s3 = allowCoding s \<and>
     (allowReflect s3 \<longrightarrow> allowReflect s) \<and> (allowAnswer s3 \<longrightarrow> allowAnswer s)"
  using assms
  by (auto simp add: freshnessGate_def split: if_splits option.splits)

lemma freshnessGate_later:
  "totalStep s \<noteq> 1 \<Longrightarrow> freshnessGate cq s = Inr s"
  by (simp add: freshnessGate_def)

lemma freshnessGate_first:
  assumes "freshnessGate cq s = Inr s3" and "totalStep s = 1"
    and "evaluationMetrics s cq = Some checks" and "includesEval checks Freshness"
  shows "\<not> allowAnswer s3 \<and> \<not> allowReflect s3"
  using assms by (auto simp add: freshnessGate_def)

lemma rerank_frame:
  "gaps (rerank E cq s) = gaps s \<and> totalStep (rerank E cq s) = totalStep s \<and>
   evaluationMetrics (rerank E cq s) = evaluationMetrics s \<and>
   allowAnswer (rerank E cq s) = allowAnswer s \<and>
   allowReflect (rerank E cq s) = allowReflect s \<and>
   allowCoding (rerank E cq s) = allowCoding s \<and>
   (allowRead (rerank E cq s) \<longrightarrow> allowRead s) \<and>
   (allowSearch (rerank E cq s) \<longrightarrow> allowSearch s)"
  by (simp add: rerank_def Let_def logCall_def)

lemma prepareStep_parts:
  assumes "prepareStep P E s = Inr (cq, s1)"
  shows "\<exists>s2 s3. currentQuestionOf (beginStep s) = Inr cq \<and>
     setupMetrics P E cq (beginStep s) = Inr s2 \<and> freshnessGate cq s2 = Inr s3 \<and>
     s1 = rerank E cq s3"
  using assms
  by (auto simp add: prepareStep_def Let_def andThen_def split: sum.splits)

lemma prepareStep_frame:
  assumes "prepareStep P E s = Inr (cq, s1)"
  shows "gaps s1 = gaps s \<and> totalStep s1 = Suc (totalStep s) \<and> gaps s \<noteq> [] \<and>
     cq = gaps s ! (Suc (totalStep s) mod length (gaps s)) \<and>
     (allowReflect s1 \<longrightarrow> allowReflect s \<and> length (gaps s) \<le> MAX_REFLECT_PER_STEP) \<and>
     (allowAnswer s1 \<longrightarrow> allowAnswer s) \<and> allowCoding s1 = allowCoding s"
proof -
  from prepareStep_parts [OF assms] obtain s2 s3 where
    c: "currentQuestionOf (beginStep s) = Inr cq"
    and m: "setupMetrics P E cq (beginStep s) = Inr s2"
    and f: "freshnessGate cq s2 = Inr s3" and r: "s1 = rerank E cq s3" by blast
  from c have g: "gaps s \<noteq> []" and q: "cq = gaps s ! (Suc (totalStep s) mod length (gaps s))"
    by (auto simp add: currentQuestionOf_def beginStep_def split: if_splits)
  note a = setupMetrics_frame [OF m] freshnessGate_frame [OF f] rerank_frame [of E cq s3]
  have b: "gaps (beginStep s) = gaps s" "totalStep (beginStep s) = Suc (totalStep s)"
    "allowReflect (beginStep s) = (allowReflect s \<and> length (gaps s) \<le> MAX_REFLECT_PER_STEP)"
    "allowAnswer (beginStep s) = allowAnswer s" "allowCoding (beginStep s) = allowCoding s"
    by (simp_all add: beginStep_def)
  from a b r g q show ?thesis
    by (simp add: permissions_def)
qed

text \<open>
  C10. At the start of every loop iteration reflect stays permitted only if it was
  permitted before and at most 2 (\<open>MAX_REFLECT_PER_STEP\<close>) gap questions are outstanding;
  with more than two gaps, whatever the cooldown state of reflect, the schema handed to
  the model for that step has neither the action \<open>reflect\<close> in its enumeration nor a
  \<open>reflect\<close> sub-schema.
\<close>

theorem reflect_needs_few_gaps:
  assumes "prepareStep P E s = Inr (cq, s1)"
  shows "(allowReflect s1 \<longrightarrow> allowReflect s \<and> length (gaps s) \<le> 2) \<and>
     (length (gaps s) > 2 \<longrightarrow>
        ''reflect'' \<notin> set (actionEnum (stepSchema P cq s1)) \<and>
        subSchema (stepSchema P cq s1) ''reflect'' = None) \<and>
     (\<forall>s2. decide P E cq s1 = Inr s2 \<longrightarrow>
        callLog s2 = callLog s1 @ [CallGenerate ''agent'' (stepSchema P cq s1)])"
proof -
  note f = prepareStep_frame [OF assms]
  have a: "allowReflect s1 \<longrightarrow> allowReflect s \<and> length (gaps s) \<le> 2"
    using f by (simp add: MAX_REFLECT_PER_STEP_def)
  have b: "length (gaps s) > 2 \<longrightarrow>
        ''reflect'' \<notin> set (actionEnum (stepSchema P cq s1)) \<and>
        subSchema (stepSchema P cq s1) ''reflect'' = None"
  proof
    assume "length (gaps s) > 2"
    with a have "\<not> allowReflect s1" by auto
    then show "''reflect'' \<notin> set (actionEnum (stepSchema P cq s1)) \<and>
        subSchema (stepSchema P cq s1) ''reflect'' = None"
      by (simp add: stepSchema_def set_actionEnum permittedKinds_def subSchema_getAgentSchema)
  qed
  have c: "\<forall>s2. decide P E cq s1 = Inr s2 \<longrightarrow>
        callLog s2 = callLog s1 @ [CallGenerate ''agent'' (stepSchema P cq s1)]"
    by (auto simp add: decide_def Let_def logCall_def resetPermissions_def andThen_def
        split: sum.splits)
  show ?thesis
    by (intro conjI a b c)
qed

definition sThree :: state where
  "sThree = s0\<lparr>gaps := [''why is the sky blue'', ''what scatters light'', ''why not violet''],
              totalStep := 4, step := 2\<rparr>"

lemma prepareStep_sThree:
  "\<exists>s1. prepareStep P1 E0 sThree = Inr (''why not violet'', s1)"
  by (simp add: prepareStep_def beginStep_def currentQuestionOf_def setupMetrics_def
      freshnessGate_def sThree_def s0_def initialState_def P1_def trim_def isSpace_def Let_def)

theorem reflect_needs_few_gaps_witness:
  "allowReflect sThree \<and> length (gaps sThree) > 2 \<and>
   (\<exists>s1. prepareStep P1 E0 sThree = Inr (''why not violet'', s1) \<and>
      ''reflect'' \<notin> set (actionEnum (stepSchema P1 ''why not violet'' s1)) \<and>
      subSchema (stepSchema P1 ''why not violet'' s1) ''reflect'' = None)"
proof -
  obtain s1 where p: "prepareStep P1 E0 sThree = Inr (''why not violet'', s1)"
    using prepareStep_sThree by blast
  have g: "length (gaps sThree) > 2" and r: "allowReflect sThree"
    by (simp_all add: sThree_def s0_def initialState_def)
  from reflect_needs_few_gaps [OF p, THEN conjunct2, THEN conjunct1, rule_format, OF g] p g r
  show ?thesis by blast
qed

lemma conforms_action:
  assumes "conforms (getAgentSchema sg rf rd an se co cq) v"
  shows "\<exists>a. jfield v ''action'' = Some (JString a) \<and>
     a \<in> set (actionEnum (getAgentSchema sg rf rd an se co cq))"
proof -
  let ?G = "getAgentSchema sg rf rd an se co cq"
  let ?e = "ZodEnum (actionEnum ?G) (Some ActionDescr)"
  have g: "?G = ZodObject (shapeOf ?G)"
    by (simp add: getAgentSchema_def Let_def)
  have "subSchema ?G ''action'' = Some ?e"
    by (simp add: subSchema_getAgentSchema)
  then have m: "(''action'', ?e) \<in> set (shapeOf ?G)"
    by (simp add: subSchema_def map_of_SomeD)
  have "\<not> isOptional ?e" by simp
  with assms g m obtain x where "jfield v ''action'' = Some x" and "conforms ?e x"
    using conforms_object_required by metis
  then show ?thesis
    by (cases x) auto
qed

lemma decide_output:
  assumes "e_generate E = Inr obj"
  shows "\<exists>s2. decide P E cq s1 = Inr s2 \<and> thisStep s2 = toStepAction obj \<and>
     action (thisStep s2) = o_action obj \<and>
     callLog s2 = callLog s1 @ [CallGenerate ''agent'' (stepSchema P cq s1)]"
  using assms by (simp add: decide_def Let_def logCall_def resetPermissions_def toStepAction_def)


definition Efresh :: env where
  "Efresh = E0\<lparr>e_evaluateQuestion := Inr [Definitive, Freshness]\<rparr>"

text \<open>A session on a question that needs freshness, in which the object generator returns
  an answer at the first step.\<close>

definition envsFresh :: "nat \<Rightarrow> env" where
  "envsFresh n = Efresh\<lparr>e_generate := Inr objAnswer\<rparr>"

definition freshSession :: "(error + state) option" where
  "freshSession = getResponse (Suc 0) P1 T0 envsFresh [] []"

lemma getAgentSchema_fresh:
  "actionEnum (getAgentSchema sg0 False False False True False (Some ''why is the sky blue'')) =
     [''search'']"
  by (simp add: actionEnum_getAgentSchema actionSchemas_def)


lemma prepareStep_fresh:
  "\<exists>s1. prepareStep P1 Efresh s0 = Inr (''why is the sky blue'', s1) \<and>
     evaluationMetrics s1 ''why is the sky blue'' =
       Some [\<lparr>m_type = Definitive, numEvalsRequired = 2\<rparr>,
             \<lparr>m_type = Freshness, numEvalsRequired = 2\<rparr>,
             \<lparr>m_type = Strict, numEvalsRequired = 2\<rparr>]"
  by (simp add: prepareStep_def beginStep_def currentQuestionOf_def setupMetrics_def
      freshnessGate_def rerank_def logCall_def includesEval_def Efresh_def E0_def
      s0_def initialState_def P1_def trim_def isSpace_def Let_def)


subsection \<open>Steps are counted\<close>

lemma reflectAction_totalStep:
  "reflectAction E cq s = Inr (c, s') \<Longrightarrow> totalStep s' = totalStep s"
  by (cases "e_dedupReflect E")
     (auto simp add: reflectAction_def Let_def logCall_def updateContext_def pushDiary_def
        split: if_splits)

lemma codingAction_totalStep:
  "codingAction E s = Inr (c, s') \<Longrightarrow> totalStep s' = totalStep s"
  by (auto simp add: codingAction_def Let_def logCall_def updateContext_def pushDiary_def
      split: sum.splits prod.splits)

lemma visitAction_totalStep:
  "visitAction T E cq urlList s = Inr (c, s') \<Longrightarrow> totalStep s' = totalStep s"
  by (auto simp add: visitAction_def Let_def logCall_def updateContext_def pushDiary_def
      andThen_def split: sum.splits if_splits)

lemma secondSearch_totalStep:
  assumes "secondSearch P T E cq kqs s = Inr (b, s')"
  shows "totalStep s' = totalStep s"
proof -
  let ?s0 = "logCall (CallExecuteSearch (map query_q kqs)) s"
  from assms obtain out s1 where
    e: "executeSearchQueries T (e_search2 E) kqs (Some (onlyHostnames P)) (searchProvider P) ?s0 =
        Inr (out, s1)"
    by (auto simp add: secondSearch_def andThen_def split: sum.splits)
  from executeSearchQueries_frame [OF e] obtain u w t where
    "s1 = ?s0\<lparr>allURLs := u, webContents := w, tracked := t\<rparr>" by blast
  then have "totalStep s1 = totalStep s" by (simp add: logCall_def)
  with assms e show ?thesis
    by (auto simp add: secondSearch_def updateContext_def pushDiary_def split: if_splits)
qed

lemma followUp_totalStep:
  assumes "followUp P T E cq s = Inr (c, s')"
  shows "totalStep s' = totalStep s"
proof -
  from assms obtain rewritten where r: "e_rewriteQuery E = Inr rewritten"
    by (cases "e_rewriteQuery E") (auto simp add: followUp_def Let_def)
  from assms r obtain uniqQOnly where d: "e_dedupRewrite E = Inr uniqQOnly"
    by (cases "e_dedupRewrite E") (auto simp add: followUp_def Let_def)
  from assms r d obtain kqs where k: "pickQueries rewritten uniqQOnly = Inr kqs"
    by (cases "pickQueries rewritten uniqQOnly") (auto simp add: followUp_def Let_def)
  let ?s2 = "logCall (CallDedupQueries (map query_q (filter (\<lambda>kq. query_q kq \<noteq> []) rewritten))
                (allKeywords (logCall CallRewriteQuery s))) (logCall CallRewriteQuery s)"
  let ?r = "if length kqs > 0 then secondSearch P T E cq kqs ?s2 else Inr (False, ?s2)"
  from assms r d k obtain b s3 where x: "?r = Inr (b, s3)"
    by (cases ?r) (auto simp add: followUp_def Let_def)
  then have "totalStep s3 = totalStep ?s2"
    using secondSearch_totalStep by (auto split: if_splits)
  then have t3: "totalStep s3 = totalStep s" by (simp add: logCall_def)
  from assms r d k x have "totalStep s' = totalStep s3"
    by (auto simp add: followUp_def Let_def updateContext_def pushDiary_def split: if_splits)
  with t3 show ?thesis by simp
qed

lemma planTeam_totalStep:
  "planTeam P E s = Inr (c, s') \<Longrightarrow> totalStep s' = totalStep s"
  by (auto simp add: planTeam_def Let_def andThen_def logCall_def
      split: if_splits sum.splits prod.splits)

lemma searchAction_totalStep:
  assumes "searchAction P T E cq s = Inr (c, s')"
  shows "totalStep s' = totalStep s"
proof -
  from assms obtain requests where r: "e_dedupSearch E = Inr requests"
    by (cases "e_dedupSearch E") (auto simp add: searchAction_def Let_def)
  let ?s1 = "logCall (CallDedupQueries (listOf (searchRequests (thisStep s))) []) s"
  let ?s3 = "logCall (CallExecuteSearch requests)
               (?s1\<lparr>thisStep := (thisStep ?s1)\<lparr>searchRequests := Some requests\<rparr>\<rparr>)"
  let ?x = "executeSearchQueries T (e_search1 E)
              (map (\<lambda>r. \<lparr>query_q = r, query_tbs = None\<rparr>) requests) None (searchProvider P) ?s3"
  from assms r obtain out s4 where e: "?x = Inr (out, s4)"
    by (cases ?x) (auto simp add: searchAction_def Let_def)
  from executeSearchQueries_frame [OF e] obtain u w t where
    "s4 = ?s3\<lparr>allURLs := u, webContents := w, tracked := t\<rparr>" by blast
  then have t4: "totalStep s4 = totalStep s" by (simp add: logCall_def)
  let ?s5 = "s4\<lparr>allKeywords := allKeywords s4 @ searchedQueries out,
               allKnowledge := allKnowledge s4 @ newKnowledge out\<rparr>"
  from assms r e obtain c6 s6 where pl: "planTeam P E ?s5 = Inr (c6, s6)"
    by (cases "planTeam P E ?s5") (auto simp add: searchAction_def Let_def)
  from planTeam_totalStep [OF pl] t4 have t6: "totalStep s6 = totalStep s" by simp
  from assms r e pl have "s' = s6 \<or> followUp P T E cq s6 = Inr (c, s')"
    by (auto simp add: searchAction_def Let_def split: control.splits)
  with t6 followUp_totalStep show ?thesis by auto
qed

lemma evaluateStep_totalStep:
  "evaluateStep E cq s = Inr (ev, s') \<Longrightarrow> totalStep s' = totalStep s"
  by (auto simp add: evaluateStep_def Let_def logCall_def andThen_def
      split: option.splits if_splits sum.splits)

lemma afterEvaluation_totalStep:
  "afterEvaluation P E cq ev s = Inr (c, s') \<Longrightarrow> totalStep s' = totalStep s"
  by (auto simp add: afterEvaluation_def failedMainAnswer_def Let_def logCall_def pushDiary_def
      andThen_def split: option.splits if_splits sum.splits)

lemma answerAction_totalStep:
  assumes "answerAction P E cq s = Inr (c, s')"
  shows "totalStep s' = totalStep s"
proof (cases "totalStep s = 1 \<and> \<not> noDirectAnswer P")
  case True
  with assms show ?thesis by (auto simp add: answerAction_def)
next
  case False
  let ?s1 = "updateContext (ContextEntry (totalStep s) (Some cq) (thisStep s) NoResult) s"
  from assms False obtain ev s2 where e: "evaluateStep E cq ?s1 = Inr (ev, s2)"
    and a: "afterEvaluation P E cq ev s2 = Inr (c, s')"
    by (cases "evaluateStep E cq ?s1") (auto simp add: answerAction_def Let_def)
  from evaluateStep_totalStep [OF e] afterEvaluation_totalStep [OF a]
  show ?thesis by (simp add: updateContext_def)
qed

lemma dispatch_totalStep:
  "dispatch P T E cq s = Inr (c, s') \<Longrightarrow> totalStep s' = totalStep s"
  using answerAction_totalStep reflectAction_totalStep searchAction_totalStep
    visitAction_totalStep codingAction_totalStep
  by (auto simp add: dispatch_def split: if_splits)

lemma loopBody_totalStep:
  assumes "loopBody P T E s = Inr (c, s')"
  shows "totalStep s' = Suc (totalStep s)"
proof -
  from assms obtain cq s1 s2 c3 s3 where p: "prepareStep P E s = Inr (cq, s1)"
    and d: "decide P E cq s1 = Inr s2" and x: "dispatch P T E cq s2 = Inr (c3, s3)"
    and s': "s' = s3 \<or> s' = logCall (CallStoreContext (totalStep s3)) s3"
    by (auto simp add: loopBody_def andThen_def split: sum.splits prod.splits control.splits)
  have "totalStep s2 = totalStep s1"
    using d by (auto simp add: decide_def Let_def logCall_def resetPermissions_def andThen_def
        split: sum.splits)
  with prepareStep_frame [OF p] dispatch_totalStep [OF x] have "totalStep s3 = Suc (totalStep s)"
    by simp
  with s' show ?thesis by (auto simp add: logCall_def)
qed

lemma withinRegularBudget_eq:
  "withinRegularBudget P s = (real (getTotalUsage (tokenTracker s)) < 0.85 * tokenBudget P)"
  by (simp add: withinRegularBudget_def regularBudget_def mult.commute)

lemma runLoop_started:
  "runLoop fuel P T envs s = Some (Inr r) \<Longrightarrow>
     (r = s \<and> \<not> withinRegularBudget P s) \<or> (totalStep s < totalStep r \<and> withinRegularBudget P s)"
proof (induction fuel arbitrary: s)
  case 0
  then show ?case by simp
next
  case (Suc fuel)
  show ?case
  proof (cases "withinRegularBudget P s")
    case False
    with Suc.prems show ?thesis by simp
  next
    case True
    show ?thesis
    proof (cases "loopBody P T (envs (Suc (totalStep s))) s")
      case (Inl err)
      with Suc.prems True show ?thesis by simp
    next
      case (Inr cs)
      obtain c s' where cs: "cs = (c, s')" by (cases cs)
      with Inr have t: "totalStep s' = Suc (totalStep s)"
        using loopBody_totalStep by blast
      show ?thesis
      proof (cases c)
        case Break
        with Suc.prems True Inr cs have "r = s'" by simp
        with t True show ?thesis by simp
      next
        case Continue
        with Suc.prems True Inr cs have "runLoop fuel P T envs s' = Some (Inr r)" by simp
        from Suc.IH [OF this] t True show ?thesis by auto
      qed
    qed
  qed
qed

lemma beastMode_result:
  assumes "beastMode P E s = Inr r"
  shows "isFinal (thisStep r) \<and> totalStep r = Suc (totalStep s) \<and>
     callLog r = callLog s @ [CallGenerate ''agentBeastMode''
        (getAgentSchema (schemaGen P) False False True False False (Some (question P)))] \<and>
     (\<exists>obj. e_generate E = Inr obj \<and> thisStep r = (toStepAction obj)\<lparr>isFinal := True\<rparr>)"
  using assms
  by (cases "e_generate E") (auto simp add: beastMode_def Let_def logCall_def)

text \<open>
  C5. A regular iteration of the loop begins only while the tokens used so far are
  strictly less than 0.85 times the token budget. At a loop test with usage at or above
  that threshold the loop ends without starting a step; a loop that ends otherwise has
  started its first step below the threshold and advanced the step counter; a step that
  continues leads back to the same test; and after the loop only the forced step runs,
  once, and only when the last step is not final.
\<close>

theorem regular_steps_within_budget:
  "withinRegularBudget P s = (real (getTotalUsage (tokenTracker s)) < 0.85 * tokenBudget P) \<and>
   (\<not> real (getTotalUsage (tokenTracker s)) < 0.85 * tokenBudget P \<longrightarrow>
      runLoop (Suc fuel) P T envs s = Some (Inr s)) \<and>
   (\<forall>r. runLoop fuel P T envs s = Some (Inr r) \<longrightarrow>
      (r = s \<and> \<not> real (getTotalUsage (tokenTracker s)) < 0.85 * tokenBudget P) \<or>
      (totalStep s < totalStep r \<and> real (getTotalUsage (tokenTracker s)) < 0.85 * tokenBudget P)) \<and>
   (\<forall>s'. real (getTotalUsage (tokenTracker s)) < 0.85 * tokenBudget P \<and>
      loopBody P T (envs (Suc (totalStep s))) s = Inr (Continue, s') \<longrightarrow>
      runLoop (Suc fuel) P T envs s = runLoop fuel P T envs s' \<and>
      totalStep s' = Suc (totalStep s)) \<and>
   (\<forall>r. afterLoop P envs s = Inr r \<longrightarrow>
      (isFinal (thisStep s) \<and> r = s) \<or>
      (\<not> isFinal (thisStep s) \<and> totalStep r = Suc (totalStep s) \<and>
       callLog r = callLog s @ [CallGenerate ''agentBeastMode''
         (getAgentSchema (schemaGen P) False False True False False (Some (question P)))]))"
proof -
  note w = withinRegularBudget_eq [of P s]
  have a: "\<not> real (getTotalUsage (tokenTracker s)) < 0.85 * tokenBudget P \<longrightarrow>
      runLoop (Suc fuel) P T envs s = Some (Inr s)"
    using w by simp
  have b: "\<forall>r. runLoop fuel P T envs s = Some (Inr r) \<longrightarrow>
      (r = s \<and> \<not> real (getTotalUsage (tokenTracker s)) < 0.85 * tokenBudget P) \<or>
      (totalStep s < totalStep r \<and> real (getTotalUsage (tokenTracker s)) < 0.85 * tokenBudget P)"
    using runLoop_started [of fuel P T envs s] w by blast
  have c: "\<forall>s'. real (getTotalUsage (tokenTracker s)) < 0.85 * tokenBudget P \<and>
      loopBody P T (envs (Suc (totalStep s))) s = Inr (Continue, s') \<longrightarrow>
      runLoop (Suc fuel) P T envs s = runLoop fuel P T envs s' \<and>
      totalStep s' = Suc (totalStep s)"
    using w loopBody_totalStep by auto
  have d: "\<forall>r. afterLoop P envs s = Inr r \<longrightarrow>
      (isFinal (thisStep s) \<and> r = s) \<or>
      (\<not> isFinal (thisStep s) \<and> totalStep r = Suc (totalStep s) \<and>
       callLog r = callLog s @ [CallGenerate ''agentBeastMode''
         (getAgentSchema (schemaGen P) False False True False False (Some (question P)))])"
    using beastMode_result by (auto simp add: afterLoop_def)
  show ?thesis
    by (intro conjI w a b c d)
qed

definition sSpent :: state where
  "sSpent = s0\<lparr>tokenTracker := [(''agent'', 600000), (''evaluator'', 250000)],
              totalStep := 7, step := 3\<rparr>"

theorem regular_steps_within_budget_witness:
  "\<not> real (getTotalUsage (tokenTracker sSpent)) < 0.85 * tokenBudget P1 \<and>
   runLoop (Suc 5) P1 T0 (\<lambda>n. E0) sSpent = Some (Inr sSpent) \<and>
   real (getTotalUsage (tokenTracker s0)) < 0.85 * tokenBudget P1 \<and>
   (\<exists>s'. loopBody P1 T0 ((\<lambda>n. E0) (Suc (totalStep s0))) s0 = Inr (Continue, s') \<and>
      runLoop (Suc 5) P1 T0 (\<lambda>n. E0) s0 = runLoop 5 P1 T0 (\<lambda>n. E0) s' \<and>
      totalStep s' = Suc (totalStep s0))"
proof -
  note C2 = conjunct2
  have n: "\<not> real (getTotalUsage (tokenTracker sSpent)) < 0.85 * tokenBudget P1"
    by (simp add: sSpent_def getTotalUsage_def P1_def)
  have y: "real (getTotalUsage (tokenTracker s0)) < 0.85 * tokenBudget P1"
    by (simp add: s0_def initialState_def getTotalUsage_def P1_def)
  note a = regular_steps_within_budget [where P = P1 and s = sSpent and fuel = 5 and T = T0
      and envs = "\<lambda>n. E0", THEN C2, THEN conjunct1, rule_format, OF n]
  obtain s' where l: "loopBody P1 T0 ((\<lambda>n. E0) (Suc (totalStep s0))) s0 = Inr (Continue, s')"
    using loopBody_search_example by auto
  note c = regular_steps_within_budget [where P = P1 and s = s0 and fuel = 5 and T = T0
      and envs = "\<lambda>n. E0", THEN C2, THEN C2, THEN C2, THEN conjunct1, rule_format,
      OF conjI [OF y l]]
  from l c have "\<exists>s'. loopBody P1 T0 ((\<lambda>n. E0) (Suc (totalStep s0))) s0 = Inr (Continue, s') \<and>
      runLoop (Suc 5) P1 T0 (\<lambda>n. E0) s0 = runLoop 5 P1 T0 (\<lambda>n. E0) s' \<and>
      totalStep s' = Suc (totalStep s0)" by blast
  with n a y show ?thesis by blast
qed

subsection \<open>The first step of a session\<close>

lemma prepareStep_initial:
  assumes "e_evaluateQuestion E = Inr types"
  shows "\<exists>s1. prepareStep P E (initialState P tracker urls) = Inr (question P, s1) \<and>
     totalStep s1 = 1 \<and> allContext s1 = [] \<and> diaryContext s1 = [] \<and> allKnowledge s1 = [] \<and>
     visitedURLs s1 = [] \<and> allKeywords s1 = [] \<and> gaps s1 = [question P] \<and>
     callLog s1 =
       (if trim (question P) = question P then [CallEvaluateQuestion (question P)] else []) @
       (if urls \<noteq> [] then [CallRankURLs (question P)] else [])"
  using assms
  by (simp add: prepareStep_def beginStep_def currentQuestionOf_def setupMetrics_def
      freshnessGate_def rerank_def logCall_def initialState_def Let_def)

lemma dispatch_first_answer:
  assumes "totalStep s = 1" and "\<not> noDirectAnswer P"
    and "action (thisStep s) = ''answer''" and "truthy (answer (thisStep s))"
  shows "dispatch P T E cq s =
     Inr (Break, s\<lparr>thisStep := (thisStep s)\<lparr>isFinal := True\<rparr>, trivialQuestion := True\<rparr>)"
  using assms by (simp add: dispatch_def answerAction_def)

text \<open>
  C2. If the first step of a session chooses the action \<open>answer\<close> with a non-empty answer
  while \<open>noDirectAnswer\<close> is false, then (the question classifier and the model having
  answered) the session ends at once with that answer marked final and the question marked
  trivial: the step counter is 1, the forced step does not run, and the only calls made
  are the question classifier, the URL ranker and the one model call; no answer
  evaluation, search or visit takes place, nothing is added to the knowledge, the diary or
  the step history.
\<close>

theorem trivial_answer_fast_path:
  assumes "withinRegularBudget P (initialState P tracker urls)"
    and "e_evaluateQuestion (envs 1) = Inr types"
    and "e_generate (envs 1) = Inr obj"
    and "o_action obj = ''answer''" and "truthy (o_answer obj)" and "\<not> noDirectAnswer P"
  shows "\<exists>r. getResponse (Suc fuel) P T envs tracker urls = Some (Inr r) \<and>
     isFinal (thisStep r) \<and> trivialQuestion r \<and> totalStep r = 1 \<and>
     action (thisStep r) = ''answer'' \<and> answer (thisStep r) = o_answer obj \<and>
     (\<exists>sch. callLog r =
        (if trim (question P) = question P then [CallEvaluateQuestion (question P)] else []) @
        (if urls \<noteq> [] then [CallRankURLs (question P)] else []) @
        [CallGenerate ''agent'' sch]) \<and>
     allContext r = [] \<and> diaryContext r = [] \<and> allKnowledge r = [] \<and> visitedURLs r = [] \<and>
     allKeywords r = []"
proof -
  let ?s = "initialState P tracker urls"
  let ?E = "envs 1"
  have t0: "totalStep ?s = 0" by (simp add: initialState_def)
  from prepareStep_initial [OF assms(2)] obtain s1 where
    p: "prepareStep P ?E ?s = Inr (question P, s1)" and t1: "totalStep s1 = 1"
    and e1: "allContext s1 = []" "diaryContext s1 = []" "allKnowledge s1 = []"
      "visitedURLs s1 = []" "allKeywords s1 = []"
    and l1: "callLog s1 =
       (if trim (question P) = question P then [CallEvaluateQuestion (question P)] else []) @
       (if urls \<noteq> [] then [CallRankURLs (question P)] else [])"
    by blast
  let ?sch = "stepSchema P (question P) s1"
  obtain s2 where d: "decide P ?E (question P) s1 = Inr s2"
    and ts: "thisStep s2 = toStepAction obj" and t2: "totalStep s2 = 1"
    and l2: "callLog s2 = callLog s1 @ [CallGenerate ''agent'' ?sch]"
    and e2: "allContext s2 = []" "diaryContext s2 = []" "allKnowledge s2 = []"
      "visitedURLs s2 = []" "allKeywords s2 = []"
    using assms(3) t1 e1
    by (simp add: decide_def Let_def logCall_def resetPermissions_def)
  let ?r = "s2\<lparr>thisStep := (thisStep s2)\<lparr>isFinal := True\<rparr>, trivialQuestion := True\<rparr>"
  have a: "action (thisStep s2) = ''answer''" and b: "truthy (answer (thisStep s2))"
    and c: "answer (thisStep s2) = o_answer obj"
    using ts assms(4,5) by (simp_all add: toStepAction_def)
  have x: "dispatch P T ?E (question P) s2 = Inr (Break, ?r)"
    using t2 assms(6) a b by (rule dispatch_first_answer)
  have lb: "loopBody P T ?E ?s = Inr (Break, ?r)"
    using p d x by (simp add: loopBody_def)
  have rl: "runLoop (Suc fuel) P T envs ?s = Some (Inr ?r)"
    using assms(1) lb t0 by simp
  have "afterLoop P envs ?r = Inr ?r"
    by (simp add: afterLoop_def)
  with rl have g: "getResponse (Suc fuel) P T envs tracker urls = Some (Inr ?r)"
    by (simp add: getResponse_def)
  have "\<exists>sch. callLog ?r =
        (if trim (question P) = question P then [CallEvaluateQuestion (question P)] else []) @
        (if urls \<noteq> [] then [CallRankURLs (question P)] else []) @
        [CallGenerate ''agent'' sch]"
    using l1 l2 by (intro exI [of _ ?sch]) simp
  with g t2 a c e2 show ?thesis
    by (intro exI [of _ ?r]) simp
qed

theorem trivial_answer_fast_path_witness:
  "withinRegularBudget P1 (initialState P1 [] []) \<and>
   e_evaluateQuestion (E0\<lparr>e_generate := Inr objAnswer\<rparr>) = Inr [Definitive] \<and>
   e_generate (E0\<lparr>e_generate := Inr objAnswer\<rparr>) = Inr objAnswer \<and>
   o_action objAnswer = ''answer'' \<and> truthy (o_answer objAnswer) \<and> \<not> noDirectAnswer P1 \<and>
   (\<exists>r. getResponse (Suc 0) P1 T0 (\<lambda>n. E0\<lparr>e_generate := Inr objAnswer\<rparr>) [] [] = Some (Inr r) \<and>
      isFinal (thisStep r) \<and> trivialQuestion r \<and> totalStep r = 1 \<and>
      answer (thisStep r) = Some ''Rayleigh scattering'' \<and>
      (\<exists>sch. callLog r = [CallEvaluateQuestion ''why is the sky blue'', CallGenerate ''agent'' sch]))"
proof -
  let ?E = "E0\<lparr>e_generate := Inr objAnswer\<rparr>"
  have w: "withinRegularBudget P1 (initialState P1 [] [])"
    by (simp add: withinRegularBudget_def regularBudget_def initialState_def getTotalUsage_def P1_def)
  have q: "e_evaluateQuestion ((\<lambda>n. ?E) 1) = Inr [Definitive]" by (simp add: E0_def)
  have g: "e_generate ((\<lambda>n. ?E) 1) = Inr objAnswer" by simp
  have a: "o_action objAnswer = ''answer''" and t: "truthy (o_answer objAnswer)"
    by (simp_all add: objAnswer_def truthy_def)
  have n: "\<not> noDirectAnswer P1" by (simp add: P1_def)
  have tr: "trim (question P1) = question P1"
    by (simp add: P1_def trim_def isSpace_def)
  from trivial_answer_fast_path [where envs = "\<lambda>n. ?E" and fuel = 0 and T = T0, OF w q g a t n]
  obtain r where "getResponse (Suc 0) P1 T0 (\<lambda>n. ?E) [] [] = Some (Inr r)"
    and "isFinal (thisStep r)" and "trivialQuestion r" and "totalStep r = 1"
    and "answer (thisStep r) = o_answer objAnswer"
    and "\<exists>sch. callLog r =
        (if trim (question P1) = question P1 then [CallEvaluateQuestion (question P1)] else []) @
        (if ([]::url_registry) \<noteq> [] then [CallRankURLs (question P1)] else []) @
        [CallGenerate ''agent'' sch]"
    by blast
  then have "\<exists>r. getResponse (Suc 0) P1 T0 (\<lambda>n. ?E) [] [] = Some (Inr r) \<and>
      isFinal (thisStep r) \<and> trivialQuestion r \<and> totalStep r = 1 \<and>
      answer (thisStep r) = Some ''Rayleigh scattering'' \<and>
      (\<exists>sch. callLog r = [CallEvaluateQuestion ''why is the sky blue'', CallGenerate ''agent'' sch])"
    using tr by (intro exI [of _ r]) (simp add: objAnswer_def P1_def)
  with w q g a t n show ?thesis by simp
qed

subsection \<open>Answers to sub-questions\<close>

lemma indexOf_bounds:
  "x \<in> set xs \<Longrightarrow> 0 \<le> indexOf xs x \<and> indexOf xs x < int (length xs)"
  by (induction xs) (auto simp add: Let_def)

lemma splice1_Cons:
  "0 \<le> i \<Longrightarrow> i < int (length ys) \<Longrightarrow> splice1 (i + 1) (y # ys) = y # splice1 i ys"
  by (simp add: splice1_def Let_def nat_add_distrib)

lemma splice1_indexOf:
  "x \<in> set xs \<Longrightarrow> splice1 (indexOf xs x) xs = remove1 x xs"
proof (induction xs)
  case Nil
  then show ?case by simp
next
  case (Cons y ys)
  show ?case
  proof (cases "y = x")
    case True
    then show ?thesis by (simp add: splice1_def)
  next
    case False
    with Cons.prems have m: "x \<in> set ys" by simp
    from indexOf_bounds [OF m] have b: "0 \<le> indexOf ys x" "indexOf ys x < int (length ys)"
      by simp_all
    then have "indexOf (y # ys) x = indexOf ys x + 1"
      using False by (simp add: Let_def)
    with b Cons.IH [OF m] False show ?thesis
      by (simp add: splice1_Cons)
  qed
qed

lemma count_list_remove1:
  "x \<in> set xs \<Longrightarrow> count_list (remove1 x xs) x = count_list xs x - 1"
  by (induction xs) auto

text \<open>
  C6. When the current question is a sub-question (its trimmed text differs from the
  original question) that is among the gaps: a passing evaluation of its answer removes
  one occurrence of it from the gaps (the first one) and appends a knowledge item of type
  \<open>qa\<close> holding the question and the answer, the step going on; a failing evaluation
  leaves the whole session state as it was. In the loop itself the metrics of a
  sub-question are empty, so its answer is not sent to the evaluator and counts as passed.
\<close>

theorem sub_question_answer:
  assumes "trim cq \<noteq> question P" and "cq \<in> set (gaps s)"
  shows
  "(pass ev \<longrightarrow>
      (\<exists>s'. afterEvaluation P E cq ev s = Inr (Continue, s') \<and>
         gaps s' = remove1 cq (gaps s) \<and>
         count_list (gaps s') cq = count_list (gaps s) cq - 1 \<and>
         length (gaps s') = length (gaps s) - 1 \<and>
         allKnowledge s' = allKnowledge s @
           [\<lparr>k_question = cq, k_answer = answerText s, k_type = KQa, k_references = None,
             k_updated = Some (e_now E), k_sourceCode = None\<rparr>] \<and>
         evaluationMetrics s' = evaluationMetrics s \<and> permissions s' = permissions s)) \<and>
   (\<not> pass ev \<longrightarrow> afterEvaluation P E cq ev s = Inr (Continue, s)) \<and>
   (evaluationMetrics s cq = Some [] \<and> \<not> (totalStep s = 1 \<and> \<not> noDirectAnswer P) \<longrightarrow>
      pass defaultEvaluation \<and>
      answerAction P E cq s =
        afterEvaluation P E cq defaultEvaluation
          (updateContext (ContextEntry (totalStep s) (Some cq) (thisStep s) NoResult) s))"
proof -
  let ?s' = "(pushDiary (DiarySubAnswerGood (step s) cq (answerText s) (eval_think ev)) s)
             \<lparr>allKnowledge := allKnowledge s @ [solvedKnowledge E cq (answerText s)],
              gaps := splice1 (indexOf (gaps s) cq) (gaps s)\<rparr>"
  have g: "splice1 (indexOf (gaps s) cq) (gaps s) = remove1 cq (gaps s)"
    using assms(2) by (rule splice1_indexOf)
  have a: "pass ev \<longrightarrow>
      (\<exists>s'. afterEvaluation P E cq ev s = Inr (Continue, s') \<and>
         gaps s' = remove1 cq (gaps s) \<and>
         count_list (gaps s') cq = count_list (gaps s) cq - 1 \<and>
         length (gaps s') = length (gaps s) - 1 \<and>
         allKnowledge s' = allKnowledge s @
           [\<lparr>k_question = cq, k_answer = answerText s, k_type = KQa, k_references = None,
             k_updated = Some (e_now E), k_sourceCode = None\<rparr>] \<and>
         evaluationMetrics s' = evaluationMetrics s \<and> permissions s' = permissions s)"
  proof
    assume p: "pass ev"
    then have e: "afterEvaluation P E cq ev s = Inr (Continue, ?s')"
      using assms(1) by (simp add: afterEvaluation_def)
    have "gaps ?s' = remove1 cq (gaps s)" using g by simp
    moreover have "count_list (remove1 cq (gaps s)) cq = count_list (gaps s) cq - 1"
      using assms(2) by (rule count_list_remove1)
    moreover have "length (remove1 cq (gaps s)) = length (gaps s) - 1"
      using assms(2) by (simp add: length_remove1)
    moreover have "allKnowledge ?s' = allKnowledge s @
           [\<lparr>k_question = cq, k_answer = answerText s, k_type = KQa, k_references = None,
             k_updated = Some (e_now E), k_sourceCode = None\<rparr>]"
      by (simp add: solvedKnowledge_def pushDiary_def)
    moreover have "evaluationMetrics ?s' = evaluationMetrics s"
      by (simp add: pushDiary_def)
    moreover have "permissions ?s' = permissions s"
      by simp
    ultimately show "\<exists>s'. afterEvaluation P E cq ev s = Inr (Continue, s') \<and>
         gaps s' = remove1 cq (gaps s) \<and>
         count_list (gaps s') cq = count_list (gaps s) cq - 1 \<and>
         length (gaps s') = length (gaps s) - 1 \<and>
         allKnowledge s' = allKnowledge s @
           [\<lparr>k_question = cq, k_answer = answerText s, k_type = KQa, k_references = None,
             k_updated = Some (e_now E), k_sourceCode = None\<rparr>] \<and>
         evaluationMetrics s' = evaluationMetrics s \<and> permissions s' = permissions s"
      using e by (intro exI [of _ ?s']) simp
  qed
  have b: "\<not> pass ev \<longrightarrow> afterEvaluation P E cq ev s = Inr (Continue, s)"
    using assms(1) by (simp add: afterEvaluation_def)
  have c: "evaluationMetrics s cq = Some [] \<and> \<not> (totalStep s = 1 \<and> \<not> noDirectAnswer P) \<longrightarrow>
      pass defaultEvaluation \<and>
      answerAction P E cq s =
        afterEvaluation P E cq defaultEvaluation
          (updateContext (ContextEntry (totalStep s) (Some cq) (thisStep s) NoResult) s)"
    by (auto simp add: answerAction_def evaluateStep_def updateContext_def defaultEvaluation_def
        Let_def)
  show ?thesis
    by (intro conjI a b c)
qed

definition sGap :: state where
  "sGap = s0\<lparr>gaps := [''why is the sky blue'', ''what scatters light''],
            allQuestions := [''why is the sky blue'', ''what scatters light''],
            totalStep := 3, step := 3,
            evaluationMetrics := [''what scatters light'' \<mapsto> []],
            thisStep := toStepAction (objAnswer\<lparr>o_answer := Some ''air molecules''\<rparr>)\<rparr>"

definition evFail :: evaluation_response where
  "evFail = \<lparr>pass = False, eval_think = ''too vague'', eval_type = Some Definitive,
            improvement_plan = None\<rparr>"

theorem sub_question_answer_witness:
  "trim ''what scatters light'' \<noteq> question P1 \<and> ''what scatters light'' \<in> set (gaps sGap) \<and>
   pass defaultEvaluation \<and> \<not> pass evFail \<and>
   (\<exists>s'. afterEvaluation P1 E0 ''what scatters light'' defaultEvaluation sGap = Inr (Continue, s') \<and>
      gaps s' = [''why is the sky blue''] \<and>
      allKnowledge s' =
        [\<lparr>k_question = ''what scatters light'', k_answer = ''air molecules'', k_type = KQa,
          k_references = None, k_updated = Some ''2025-01-01'', k_sourceCode = None\<rparr>]) \<and>
   afterEvaluation P1 E0 ''what scatters light'' evFail sGap = Inr (Continue, sGap)"
proof -
  have t: "trim ''what scatters light'' \<noteq> question P1"
    by (simp add: trim_def isSpace_def P1_def)
  have m: "''what scatters light'' \<in> set (gaps sGap)"
    by (simp add: sGap_def)
  have p: "pass defaultEvaluation" and f: "\<not> pass evFail"
    by (simp_all add: defaultEvaluation_def evFail_def)
  note T = sub_question_answer [OF t m, where E = E0]
  from T [where ev = defaultEvaluation, THEN conjunct1, rule_format, OF p]
  obtain s' where
    "afterEvaluation P1 E0 ''what scatters light'' defaultEvaluation sGap = Inr (Continue, s')"
    and "gaps s' = remove1 ''what scatters light'' (gaps sGap)"
    and "allKnowledge s' = allKnowledge sGap @
           [\<lparr>k_question = ''what scatters light'', k_answer = answerText sGap, k_type = KQa,
             k_references = None, k_updated = Some (e_now E0), k_sourceCode = None\<rparr>]"
    by blast
  then have a: "\<exists>s'. afterEvaluation P1 E0 ''what scatters light'' defaultEvaluation sGap =
        Inr (Continue, s') \<and>
      gaps s' = [''why is the sky blue''] \<and>
      allKnowledge s' =
        [\<lparr>k_question = ''what scatters light'', k_answer = ''air molecules'', k_type = KQa,
          k_references = None, k_updated = Some ''2025-01-01'', k_sourceCode = None\<rparr>]"
    by (intro exI [of _ s'])
       (simp add: sGap_def s0_def initialState_def answerText_def toStepAction_def objAnswer_def
          E0_def)
  note b = T [where ev = evFail, THEN conjunct2, THEN conjunct1, rule_format, OF f]
  from t m p f a b show ?thesis by blast
qed

subsection \<open>Failed answers to the original question and the forced step\<close>

lemma decrementFailed_positive:
  "\<forall>m \<in> set (decrementFailed ft checks). 0 < numEvalsRequired m"
  by (simp add: decrementFailed_def)

lemma decrementFailed_other:
  "\<forall>m \<in> set checks. Some (m_type m) \<noteq> ft \<and> 0 < numEvalsRequired m \<longrightarrow>
     m \<in> set (decrementFailed ft checks)"
  by (auto simp add: decrementFailed_def intro!: image_eqI)

lemma decrementFailed_same:
  "\<forall>m \<in> set checks. Some (m_type m) = ft \<and> 1 < numEvalsRequired m \<longrightarrow>
     m\<lparr>numEvalsRequired := numEvalsRequired m - 1\<rparr> \<in> set (decrementFailed ft checks)"
  by (auto simp add: decrementFailed_def intro!: image_eqI)

lemma decrementFailed_origin:
  "\<forall>m' \<in> set (decrementFailed ft checks). \<exists>m \<in> set checks.
     m' = (if Some (m_type m) = ft then m\<lparr>numEvalsRequired := numEvalsRequired m - 1\<rparr> else m)"
  by (auto simp add: decrementFailed_def)

lemma decrementFailed_dropped:
  "\<forall>m \<in> set checks. Some (m_type m) = ft \<and> numEvalsRequired m \<le> 1 \<longrightarrow>
     m\<lparr>numEvalsRequired := numEvalsRequired m - 1\<rparr> \<notin> set (decrementFailed ft checks)"
  by (auto simp add: decrementFailed_def)

lemma beastMode_output:
  assumes "e_generate E = Inr obj"
  shows "\<exists>r. beastMode P E s = Inr r \<and>
     thisStep r = (toStepAction obj)\<lparr>isFinal := True\<rparr> \<and> isFinal (thisStep r) \<and>
     action (thisStep r) = o_action obj \<and>
     (o_action obj = ''answer'' \<longrightarrow> answer (thisStep r) = o_answer obj) \<and>
     totalStep r = Suc (totalStep s) \<and>
     callLog r = callLog s @ [CallGenerate ''agentBeastMode''
        (getAgentSchema (schemaGen P) False False True False False (Some (question P)))]"
  using assms by (simp add: beastMode_def Let_def logCall_def toStepAction_def)

lemma beastMode_error:
  assumes "e_generate E = Inl err"
  shows "beastMode P E s = Inl err"
  using assms by (simp add: beastMode_def Let_def)

lemma beastMode_schema:
  "actionEnum (getAgentSchema sg False False True False False cq) = [''answer'']"
  by (simp add: actionEnum_getAgentSchema actionSchemas_def)


definition sLast :: state where
  "sLast = s0\<lparr>totalStep := 5, step := 2,
             evaluationMetrics := [''why is the sky blue'' \<mapsto>
               [\<lparr>m_type = Definitive, numEvalsRequired = 1\<rparr>]],
             thisStep := toStepAction objAnswer\<rparr>"

definition sTwo :: state where
  "sTwo = sLast\<lparr>evaluationMetrics := [''why is the sky blue'' \<mapsto>
               [\<lparr>m_type = Definitive, numEvalsRequired = 2\<rparr>,
                \<lparr>m_type = Strict, numEvalsRequired = 1\<rparr>]]\<rparr>"

text \<open>
  Two sessions that may not answer at the first step and allow one failed evaluation. The
  first answer fails the strict check, which empties the list of metrics; the forced step
  follows. In the first session the model call of the forced step throws; in the second
  it returns an object whose action is \<open>search\<close>.
\<close>

definition P3 :: params where
  "P3 = P1\<lparr>noDirectAnswer := True, maxBadAttempts := 1\<rparr>"

definition evStrict :: evaluation_response where
  "evStrict = \<lparr>pass = False, eval_think = ''too vague'', eval_type = Some Strict,
              improvement_plan = None\<rparr>"

definition Efirst :: env where
  "Efirst = E0\<lparr>e_evaluateQuestion := Inr [], e_generate := Inr objAnswer,
              e_evaluateAnswer := Inr (Some evStrict)\<rparr>"

definition envsDown :: "nat \<Rightarrow> env" where
  "envsDown n = (if n = 1 then Efirst else E0\<lparr>e_generate := Inl (Error ''model down'')\<rparr>)"

definition envsAstray :: "nat \<Rightarrow> env" where
  "envsAstray n = (if n = 1 then Efirst else E0)"

definition downSession :: "(error + state) option" where
  "downSession = getResponse (Suc 0) P3 T0 envsDown [] []"

definition astraySession :: "(error + state) option" where
  "astraySession = getResponse (Suc 0) P3 T0 envsAstray [] []"

lemmas session_defs =
  getResponse_def afterLoop_def beastMode_def withinRegularBudget_def regularBudget_def
  getTotalUsage_def answerAction_def evaluateStep_def afterEvaluation_def failedMainAnswer_def
  decrementFailed_def answerText_def objAnswer_def objSearch_def evStrict_def Efirst_def P3_def



end
